theory Spec2Isabelle
  imports Complex_Main
begin

section \<open>Python values used by the backend\<close>

text \<open>
  Exceptions are values. Every constructor is a subclass of Python's \<open>Exception\<close>, so an
  \<open>except Exception\<close> clause catches each of them. \<open>KeyError\<close> and \<open>IndexError\<close> are the
  two builtin subclasses of \<open>LookupError\<close>. \<open>HTTPException\<close> is FastAPI's exception, which
  carries a status code and a detail text. \<open>RequestException\<close> stands for whatever an
  external collaborator (HTTP client, polyline decoder) raises.
\<close>

datatype py_exception =
    KeyError string
  | IndexError
  | ValueError string
  | FileNotFoundError string
  | JSONDecodeError
  | UnicodeDecodeError
  | RequestException string
  | PyException string
  | HTTPException nat string

fun is_LookupError :: "py_exception \<Rightarrow> bool" where
  "is_LookupError (KeyError k) = True"
| "is_LookupError IndexError = True"
| "is_LookupError e = False"

text \<open>\<open>str(e)\<close>: the message of the exception; Starlette prints an \<open>HTTPException\<close> as
  status code, colon, detail; \<open>KeyError\<close> prints the repr of the key.\<close>

function str_nat :: "nat \<Rightarrow> string" where
  "str_nat n = (if n < 10 then [char_of (48 + n)] else str_nat (n div 10) @ [char_of (48 + n mod 10)])"
  by pat_completeness auto
termination
  by (relation "measure id") auto

declare str_nat.simps [simp del]

definition str_int :: "int \<Rightarrow> string" where
  "str_int i = (if i < 0 then CHR ''-'' # str_nat (nat (- i)) else str_nat (nat i))"

fun str_exception :: "py_exception \<Rightarrow> string" where
  "str_exception (KeyError k) = [CHR 0x27] @ k @ [CHR 0x27]"
| "str_exception IndexError = ''list index out of range''"
| "str_exception (ValueError m) = m"
| "str_exception (FileNotFoundError m) = m"
| "str_exception JSONDecodeError = ''Expecting value: line 1 column 1 (char 0)''"
| "str_exception UnicodeDecodeError = ''invalid start byte''"
| "str_exception (RequestException m) = m"
| "str_exception (PyException m) = m"
| "str_exception (HTTPException code detail) = str_nat code @ '': '' @ detail"

subsection \<open>Strings\<close>

text \<open>
  A Python string is kept as the bytes of its UTF-8 encoding, so an ASCII character is one
  \<open>char\<close> and any other code point is two to four. \<open>whitespace\<close> lists the encodings of
  the code points for which \<open>str.isspace\<close> holds: U+0009..U+000D, U+001C..U+0020, U+0085,
  U+00A0, U+1680, U+2000..U+200A, U+2028, U+2029, U+202F, U+205F and U+3000.
\<close>

definition whitespace :: "string list" where
  "whitespace =
     [[CHR 0x09], [CHR 0x0A], [CHR 0x0B], [CHR 0x0C], [CHR 0x0D], [CHR 0x1C], [CHR 0x1D],
      [CHR 0x1E], [CHR 0x1F], [CHR 0x20], [CHR 0xC2, CHR 0x85], [CHR 0xC2, CHR 0xA0],
      [CHR 0xE1, CHR 0x9A, CHR 0x80], [CHR 0xE2, CHR 0x80, CHR 0x80],
      [CHR 0xE2, CHR 0x80, CHR 0x81], [CHR 0xE2, CHR 0x80, CHR 0x82],
      [CHR 0xE2, CHR 0x80, CHR 0x83], [CHR 0xE2, CHR 0x80, CHR 0x84],
      [CHR 0xE2, CHR 0x80, CHR 0x85], [CHR 0xE2, CHR 0x80, CHR 0x86],
      [CHR 0xE2, CHR 0x80, CHR 0x87], [CHR 0xE2, CHR 0x80, CHR 0x88],
      [CHR 0xE2, CHR 0x80, CHR 0x89], [CHR 0xE2, CHR 0x80, CHR 0x8A],
      [CHR 0xE2, CHR 0x80, CHR 0xA8], [CHR 0xE2, CHR 0x80, CHR 0xA9],
      [CHR 0xE2, CHR 0x80, CHR 0xAF], [CHR 0xE2, CHR 0x81, CHR 0x9F],
      [CHR 0xE3, CHR 0x80, CHR 0x80]]"

text \<open>The number of bytes of the first code point of \<open>s\<close> when its encoding is in \<open>ps\<close>,
  else 0.\<close>

definition leading :: "string list \<Rightarrow> string \<Rightarrow> nat" where
  "leading ps s = (case find (\<lambda>p. take (length p) s = p) ps of Some p \<Rightarrow> length p | None \<Rightarrow> 0)"

function strip_leading :: "string list \<Rightarrow> string \<Rightarrow> string" where
  "strip_leading ps s = (if leading ps s = 0 then s else strip_leading ps (drop (leading ps s) s))"
  by pat_completeness auto
termination
proof (relation "measure (\<lambda>(ps, s). length s)")
  show "wf (measure (\<lambda>(ps, s). length s))"
    by simp
next
  fix ps :: "string list" and s :: string
  assume pos: "leading ps s \<noteq> 0"
  then obtain p where "find (\<lambda>p. take (length p) s = p) ps = Some p" and "length p \<noteq> 0"
    by (auto simp: leading_def split: option.splits)
  then have "take (length p) s = p" and "p \<noteq> []"
    by (auto simp: find_Some_iff)
  then have "s \<noteq> []"
    by auto
  then show "((ps, drop (leading ps s) s), (ps, s)) \<in> measure (\<lambda>(ps, s). length s)"
    using pos by simp
qed

declare strip_leading.simps [simp del]

definition lstrip :: "string \<Rightarrow> string" where
  "lstrip s = strip_leading whitespace s"

text \<open>A whitespace code point ends the text exactly when its reversed encoding starts the
  reversed text, since an encoding starts with the only byte of it that is not a
  continuation byte.\<close>

definition rstrip :: "string \<Rightarrow> string" where
  "rstrip s = rev (strip_leading (map rev whitespace) (rev s))"

definition strip :: "string \<Rightarrow> string" where
  "strip s = rstrip (lstrip s)"

text \<open>
  \<open>str.upper\<close> and \<open>str.lower\<close> follow the case mappings of the Unicode database of the
  Python runtime; they are parameters of the environment below. On ASCII text they are the
  two functions here, which the example environment uses.
\<close>

definition ascii_upper :: "string \<Rightarrow> string" where
  "ascii_upper s =
     map (\<lambda>c. let n = (of_char c :: nat) in if 97 \<le> n \<and> n \<le> 122 then char_of (n - 32) else c) s"

definition ascii_lower :: "string \<Rightarrow> string" where
  "ascii_lower s =
     map (\<lambda>c. let n = (of_char c :: nat) in if 65 \<le> n \<and> n \<le> 90 then char_of (n + 32) else c) s"

subsection \<open>Floats\<close>

text \<open>
  A finite binary64 value is represented by its exact rational value. Each float operation
  is the exact operation followed by rounding to the nearest value with a 53-bit
  significand, ties to even (\<open>binary64\<close>). The exponent range is not bounded: overflow to
  infinity (beyond about 1.8e308) and subnormal numbers are outside the model, and so is
  the sign of zero.
\<close>

type_synonym pyfloat = rat

definition round_half_even :: "rat \<Rightarrow> int" where
  "round_half_even x =
     (let f = \<lfloor>x\<rfloor>; d = x - of_int f
      in if d < 1 / 2 then f else if 1 / 2 < d then f + 1 else if even f then f else f + 1)"

function bit_length :: "int \<Rightarrow> int" where
  "bit_length n = (if n = 0 then 0 else 1 + bit_length (\<bar>n\<bar> div 2))"
  by pat_completeness auto
termination
  by (relation "measure (\<lambda>n. nat \<bar>n\<bar>)") auto

declare bit_length.simps [simp del]

definition pow2 :: "int \<Rightarrow> rat" where
  "pow2 k = (if 0 \<le> k then 2 ^ nat k else 1 / 2 ^ nat (- k))"

definition binary64 :: "rat \<Rightarrow> pyfloat" where
  "binary64 x =
     (if x = 0 then 0
      else
        let a = \<bar>x\<bar>;
            p = fst (quotient_of a);
            q = snd (quotient_of a);
            k = bit_length p - bit_length q;
            e = (if pow2 k \<le> a then k else k - 1);
            u = pow2 (e - 52)
        in sgn x * of_int (round_half_even (a / u)) * u)"

definition truediv_int :: "int \<Rightarrow> int \<Rightarrow> pyfloat" where
  "truediv_int a b = binary64 (of_int a / of_int b)"

definition fmul :: "pyfloat \<Rightarrow> pyfloat \<Rightarrow> pyfloat" where
  "fmul x y = binary64 (x * y)"

definition fadd :: "pyfloat \<Rightarrow> pyfloat \<Rightarrow> pyfloat" where
  "fadd x y = binary64 (x + y)"

definition fdiv :: "pyfloat \<Rightarrow> pyfloat \<Rightarrow> pyfloat" where
  "fdiv x y = binary64 (x / y)"

text \<open>\<open>round(x, ndigits)\<close> on a float, for \<open>ndigits \<ge> 0\<close>: the decimal with \<open>ndigits\<close>
  places nearest to the exact value of \<open>x\<close> (ties to even), converted back to a float.\<close>

definition py_round :: "pyfloat \<Rightarrow> nat \<Rightarrow> pyfloat" where
  "py_round x ndigits = binary64 (of_int (round_half_even (x * 10 ^ ndigits)) / 10 ^ ndigits)"

section \<open>trip_planner.py\<close>

subsection \<open>TravelMode\<close>

datatype TravelMode = DRIVE | WALK | BICYCLE | TRANSIT | TWO_WHEELER

fun mode_value :: "TravelMode \<Rightarrow> string" where
  "mode_value DRIVE = ''DRIVE''"
| "mode_value WALK = ''WALK''"
| "mode_value BICYCLE = ''BICYCLE''"
| "mode_value TRANSIT = ''TRANSIT''"
| "mode_value TWO_WHEELER = ''TWO_WHEELER''"

definition TravelMode_members :: "(string \<times> TravelMode) list" where
  "TravelMode_members =
     [(''DRIVE'', DRIVE), (''WALK'', WALK), (''BICYCLE'', BICYCLE), (''TRANSIT'', TRANSIT),
      (''TWO_WHEELER'', TWO_WHEELER)]"

text \<open>\<open>getattr(TravelMode, name, default)\<close>: the member of that name, else the default.\<close>

definition getattr_TravelMode :: "string \<Rightarrow> TravelMode \<Rightarrow> TravelMode" where
  "getattr_TravelMode name dflt =
     (case map_of TravelMode_members name of Some m \<Rightarrow> m | None \<Rightarrow> dflt)"

subsection \<open>IntegratedFareCalculator\<close>

record fare_entry =
  fare :: pyfloat
  currency :: string

text \<open>The \<open>fares\<close> dictionary keeps its insertion order, which the guide generator reads.\<close>

record fare_info =
  fares :: "(string \<times> fare_entry) list"
  distance_km :: pyfloat

definition fallback_rates :: "(string \<times> int) list" where
  "fallback_rates = [(''personal_car'', 7), (''personal_bike'', 3)]"

definition per_km :: "string \<Rightarrow> pyfloat" where
  "per_km vehicle = of_int (the (map_of fallback_rates vehicle))"

definition get_comprehensive_fares :: "int \<Rightarrow> TravelMode \<Rightarrow> fare_info" where
  "get_comprehensive_fares distance_meters mode =
     (let km = truediv_int distance_meters 1000;
          fs = (if mode = DRIVE then
                  [(''personal_car'',
                    \<lparr>fare = py_round (fmul km (per_km ''personal_car'')) 0, currency = ''INR''\<rparr>)]
                else if mode = TWO_WHEELER then
                  [(''personal_bike'',
                    \<lparr>fare = py_round (fmul km (per_km ''personal_bike'')) 0, currency = ''INR''\<rparr>)]
                else [])
      in \<lparr>fares = fs, distance_km = py_round km 2\<rparr>)"

subsection \<open>Routes\<close>

text \<open>
  A route is the dictionary built by \<open>_get_routes_google_api\<close>: seven keys at creation,
  \<open>route_number\<close> and \<open>fare_info\<close> added later, \<open>polyline\<close> removed before saving. A key that
  may be absent is an option. Distances are metres and durations seconds, integers as the
  directions provider sends them.
\<close>

record route =
  summary :: string
  distance :: int
  duration :: int
  distance_text :: string
  duration_text :: string
  polyline :: "string option"
  strategy :: string
  route_number :: "int option"
  fare_info :: "fare_info option"

subsection \<open>_remove_duplicates\<close>

type_synonym route_key = "int \<times> int \<times> string"

definition route_key :: "route \<Rightarrow> route_key" where
  "route_key r = (distance r, duration r, strategy r)"

text \<open>The loop over \<open>routes\<close>, with the two accumulators \<open>seen\<close> and \<open>unique\<close>.\<close>

fun remove_duplicates_loop :: "route list \<Rightarrow> route_key set \<Rightarrow> route list \<Rightarrow> route list" where
  "remove_duplicates_loop [] seen unique = unique"
| "remove_duplicates_loop (r # routes) seen unique =
     (let key = route_key r
      in if key \<notin> seen then remove_duplicates_loop routes (insert key seen) (unique @ [r])
         else remove_duplicates_loop routes seen unique)"

definition remove_duplicates :: "route list \<Rightarrow> route list" where
  "remove_duplicates routes = remove_duplicates_loop routes {} []"

subsection \<open>External collaborators\<close>

text \<open>
  The geocoding and directions services answer with JSON. The answers are typed after the
  keys the code reads; a key the code reads with a subscript and that the service may omit
  is an option, and a list may be empty.
\<close>

record location =
  lat :: pyfloat
  lng :: pyfloat

record geocode_result =
  geometry_location :: location
  formatted_address :: string

record geocode_response =
  results :: "geocode_result list option"
  geocode_status :: string

record text_value =
  tv_text :: string
  tv_value :: int

record leg =
  leg_distance :: text_value
  leg_duration :: text_value

record api_route =
  api_summary :: "string option"
  legs :: "leg list"
  overview_polyline_points :: string

record directions_response =
  status :: "string option"
  resp_routes :: "api_route list option"

record geocode_params =
  gp_address :: string
  gp_key :: string
  gp_region :: string

record directions_params =
  dp_origin :: string
  dp_destination :: string
  dp_mode :: string
  dp_alternatives :: bool
  dp_key :: string
  dp_avoid :: "string option"

text \<open>
  The text-generation service: the request carries the prompt, given here by the values
  substituted into its template; the answer either has an \<open>error\<close> key or a list of
  candidates, each with its text.
\<close>

record prompt =
  p_strategy :: string
  p_distance :: string
  p_duration :: string
  p_fare :: pyfloat
  p_start :: string
  p_end :: string

record gemini_data =
  gemini_error :: "string option"
  candidates :: "string list option"

text \<open>
  The environment of one process: the API key read from the environment variables at import,
  the HTTP services (a call either raises or returns the decoded JSON body), the key
  check of the \<open>googlemaps\<close> client, the polyline decoder, the clock, and two
  tables of the runtime: the case mappings, and \<open>float.__repr__\<close>, the shortest decimal
  that reads back as the same float.
\<close>

record env =
  API_KEY :: "string option"
  gmaps_Client :: "string \<Rightarrow> py_exception + unit"
  geocode_get :: "geocode_params \<Rightarrow> py_exception + geocode_response"
  directions_get :: "directions_params \<Rightarrow> py_exception + directions_response"
  polyline_decode :: "string \<Rightarrow> py_exception + (pyfloat \<times> pyfloat) list"
  gemini_post :: "prompt \<Rightarrow> py_exception + gemini_data"
  now_isoformat :: string
  str_upper :: "string \<Rightarrow> string"
  str_lower :: "string \<Rightarrow> string"
  float_repr :: "pyfloat \<Rightarrow> string"

subsection \<open>EnhancedRouteOptimizer\<close>

definition geocode_place ::
  "env \<Rightarrow> string \<Rightarrow> string \<Rightarrow> py_exception + (location \<times> (pyfloat \<times> pyfloat) \<times> string)" where
  "geocode_place e api_key place =
     (case geocode_get e \<lparr>gp_address = place, gp_key = api_key, gp_region = ''in''\<rparr> of
        Inl x \<Rightarrow> Inl x
      | Inr resp \<Rightarrow>
          (case results resp of
             None \<Rightarrow> Inl (KeyError ''results'')
           | Some [] \<Rightarrow> Inl IndexError
           | Some (r # _) \<Rightarrow>
               (let loc = geometry_location r
                in Inr (\<lparr>lat = lat loc, lng = lng loc\<rparr>, (lat loc, lng loc), formatted_address r))))"

fun join :: "string \<Rightarrow> string list \<Rightarrow> string" where
  "join sep [] = []"
| "join sep [x] = x"
| "join sep (x # y # ys) = x @ sep @ join sep (y # ys)"

text \<open>The loop over \<open>resp["routes"]\<close>; \<open>r["legs"][0]\<close> raises on an empty list of legs.\<close>

fun routes_loop :: "api_route list \<Rightarrow> string \<Rightarrow> route list \<Rightarrow> py_exception + route list" where
  "routes_loop [] strat acc = Inr acc"
| "routes_loop (r # rs) strat acc =
     (case legs r of
        [] \<Rightarrow> Inl IndexError
      | l # _ \<Rightarrow>
          routes_loop rs strat
            (acc @ [\<lparr>summary = (case api_summary r of Some s \<Rightarrow> s | None \<Rightarrow> []),
                     distance = tv_value (leg_distance l),
                     duration = tv_value (leg_duration l),
                     distance_text = tv_text (leg_distance l),
                     duration_text = tv_text (leg_duration l),
                     polyline = Some (overview_polyline_points r),
                     strategy = strat,
                     route_number = None,
                     fare_info = None\<rparr>]))"

definition get_routes_google_api ::
  "env \<Rightarrow> string \<Rightarrow> string \<Rightarrow> string \<Rightarrow> string \<Rightarrow> string list \<Rightarrow> string \<Rightarrow> py_exception + route list"
  where
  "get_routes_google_api e api_key origin dest mode avoid strat =
     (let params = \<lparr>dp_origin = origin, dp_destination = dest, dp_mode = str_lower e mode,
                     dp_alternatives = True, dp_key = api_key,
                     dp_avoid = (if avoid \<noteq> [] then Some (join ''|'' avoid) else None)\<rparr>
      in case directions_get e params of
           Inl x \<Rightarrow> Inl x
         | Inr resp \<Rightarrow>
             (case status resp of
                None \<Rightarrow> Inl (KeyError ''status'')
              | Some st \<Rightarrow>
                  if st = ''OK'' then
                    (case resp_routes resp of
                       None \<Rightarrow> Inl (KeyError ''routes'')
                     | Some rs \<Rightarrow> routes_loop rs strat [])
                  else Inr []))"

fun enumerate_from :: "int \<Rightarrow> 'a list \<Rightarrow> (int \<times> 'a) list" where
  "enumerate_from i [] = []"
| "enumerate_from i (x # xs) = (i, x) # enumerate_from (i + 1) xs"

definition renumber :: "route list \<Rightarrow> route list" where
  "renumber all_routes = map (\<lambda>(i, r). r\<lparr>route_number := Some i\<rparr>) (enumerate_from 1 all_routes)"

definition get_all_route_strategies ::
  "env \<Rightarrow> string \<Rightarrow> string \<Rightarrow> string \<Rightarrow> TravelMode \<Rightarrow> py_exception + route list" where
  "get_all_route_strategies e api_key origin dest mode =
     (case get_routes_google_api e api_key origin dest (mode_value mode) [] ''Default'' of
        Inl x \<Rightarrow> Inl x
      | Inr default_routes \<Rightarrow>
          if mode = DRIVE then
            (case get_routes_google_api e api_key origin dest (mode_value mode) [''highways'']
                    ''No Highways'' of
               Inl x \<Rightarrow> Inl x
             | Inr no_highways \<Rightarrow>
                 (case get_routes_google_api e api_key origin dest (mode_value mode) [''tolls'']
                         ''No Tolls'' of
                    Inl x \<Rightarrow> Inl x
                  | Inr no_tolls \<Rightarrow>
                      Inr (renumber (remove_duplicates (default_routes @ no_highways @ no_tolls)))))
          else Inr (renumber (remove_duplicates default_routes)))"

definition process_routes_with_fares :: "route list \<Rightarrow> TravelMode \<Rightarrow> route list" where
  "process_routes_with_fares rs mode =
     map (\<lambda>r. r\<lparr>fare_info := Some (get_comprehensive_fares (distance r) mode)\<rparr>) rs"

subsection \<open>The file system\<close>

text \<open>
  The interactive map is kept as the data handed to the map library: centre, markers and one
  line per route. The route data file is kept as the document \<open>save_routes_data\<close> hands
  to \<open>json.dump\<close>; the text of the file and what \<open>json.load\<close> reads from it are given in
  the section on \<open>json\<close> below. A PDF is its title and its text; the page layout is the PDF
  library's.
\<close>

record poly_line =
  pl_locations :: "(pyfloat \<times> pyfloat) list"
  pl_color :: string
  pl_weight :: nat
  pl_tooltip :: string

record folium_map =
  map_location :: "pyfloat \<times> pyfloat"
  zoom_start :: nat
  markers :: "((pyfloat \<times> pyfloat) \<times> string) list"
  poly_lines :: "poly_line list"

record trip_info =
  trip_start :: string
  trip_end :: string
  trip_mode :: string
  generated_at :: string

record trip_record =
  trip :: trip_info
  routes :: "route list"

datatype file_content =
    JsonFile trip_record
  | HtmlFile folium_map
  | PdfFile string string

text \<open>The state outside the process: the files, and the requests received by the
  text-generation service so far.\<close>

record world =
  files :: "string \<rightharpoonup> file_content"
  gemini_requests :: "prompt list"

subsection \<open>create_comprehensive_map\<close>

definition colors :: "string list" where
  "colors = [''blue'', ''red'', ''green'', ''purple'']"

fun map_loop :: "env \<Rightarrow> (nat \<times> route) list \<Rightarrow> poly_line list \<Rightarrow> py_exception + poly_line list" where
  "map_loop e [] acc = Inr acc"
| "map_loop e ((i, r) # rest) acc =
     (case polyline r of
        None \<Rightarrow> map_loop e rest acc
      | Some p \<Rightarrow>
          (case polyline_decode e p of
             Inl x \<Rightarrow> Inl x
           | Inr pts \<Rightarrow>
               (case route_number r of
                  None \<Rightarrow> Inl (KeyError ''route_number'')
                | Some n \<Rightarrow>
                    map_loop e rest
                      (acc @ [\<lparr>pl_locations = pts,
                               pl_color = colors ! (i mod length colors),
                               pl_weight = 5,
                               pl_tooltip = ''Route '' @ str_int n @ '': '' @ distance_text r\<rparr>]))))"

definition create_comprehensive_map ::
  "env \<Rightarrow> pyfloat \<times> pyfloat \<Rightarrow> pyfloat \<times> pyfloat \<Rightarrow> route list \<Rightarrow> string \<Rightarrow> string
     \<Rightarrow> py_exception + folium_map" where
  "create_comprehensive_map e origin dest rs start_place end_place =
     (case map_loop e (enumerate 0 rs) [] of
        Inl x \<Rightarrow> Inl x
      | Inr ls \<Rightarrow>
          Inr \<lparr>map_location = (fdiv (fadd (fst origin) (fst dest)) 2,
                                fdiv (fadd (snd origin) (snd dest)) 2),
               zoom_start = 6,
               markers = [(origin, ''Start''), (dest, ''End'')],
               poly_lines = ls\<rparr>)"

subsection \<open>save_routes_data\<close>

definition save_routes_data ::
  "env \<Rightarrow> route list \<Rightarrow> string \<Rightarrow> string \<Rightarrow> pyfloat \<times> pyfloat \<Rightarrow> pyfloat \<times> pyfloat \<Rightarrow> string
     \<Rightarrow> string \<Rightarrow> world \<Rightarrow> string \<times> world" where
  "save_routes_data e rs start_name end_name origin dest mode filename w =
     (let cleaned_routes = map (\<lambda>r. r\<lparr>polyline := None\<rparr>) rs;
          data = \<lparr>trip = \<lparr>trip_start = start_name, trip_end = end_name, trip_mode = mode,
                           generated_at = now_isoformat e\<rparr>,
                  routes = cleaned_routes\<rparr>
      in (filename, w\<lparr>files := (files w)(filename \<mapsto> JsonFile data)\<rparr>))"

subsection \<open>plan_trip_with_routes\<close>

record plan_result =
  map_file :: string
  data_file :: string
  routes_found :: nat

definition plan_trip_with_routes ::
  "env \<Rightarrow> string \<Rightarrow> string \<Rightarrow> string \<Rightarrow> world \<Rightarrow> (py_exception + plan_result) \<times> world" where
  "plan_trip_with_routes e start_place end_place travel_mode w =
     (case API_KEY e of
        None \<Rightarrow> (Inl (PyException ''Google API key missing in .env''), w)
      | Some k \<Rightarrow>
          if k = [] then (Inl (PyException ''Google API key missing in .env''), w)
          else
            (case gmaps_Client e k of
               Inl x \<Rightarrow> (Inl x, w)
             | Inr _ \<Rightarrow>
                 (let mode_enum = getattr_TravelMode (str_upper e travel_mode) DRIVE
                  in case geocode_place e k start_place of
                       Inl x \<Rightarrow> (Inl x, w)
                     | Inr (origin_dict, origin_coords, start_fmt) \<Rightarrow>
                         (case geocode_place e k end_place of
                            Inl x \<Rightarrow> (Inl x, w)
                          | Inr (dest_dict, dest_coords, end_fmt) \<Rightarrow>
                              (case get_all_route_strategies e k start_fmt end_fmt mode_enum of
                                 Inl x \<Rightarrow> (Inl x, w)
                               | Inr numbered \<Rightarrow>
                                   (let rs = process_routes_with_fares numbered mode_enum
                                    in case create_comprehensive_map e origin_coords dest_coords rs
                                              start_fmt end_fmt of
                                         Inl x \<Rightarrow> (Inl x, w)
                                       | Inr route_map \<Rightarrow>
                                           (let w1 = w\<lparr>files := (files w)(''routes_map.html'' \<mapsto>
                                                        HtmlFile route_map)\<rparr>;
                                                w2 = snd (save_routes_data e rs start_fmt end_fmt
                                                       origin_coords dest_coords
                                                       (mode_value mode_enum) ''route_data.json'' w1)
                                            in (Inr \<lparr>map_file = ''routes_map.html'',
                                                     data_file = ''route_data.json'',
                                                     routes_found = length rs\<rparr>, w2))))))))"

section \<open>travel_guide.py\<close>

definition create_pdf_with_wrapping :: "string \<Rightarrow> string \<Rightarrow> string \<Rightarrow> world \<Rightarrow> world" where
  "create_pdf_with_wrapping output_pdf title content w =
     w\<lparr>files := (files w)(output_pdf \<mapsto> PdfFile title content)\<rparr>"

definition guide_title :: string where
  "guide_title = [CHR 0xF0, CHR 0x9F, CHR 0xA4, CHR 0x96] @ '' AI-Generated Travel Insights''"

definition generate_travel_insights_pdf ::
  "env \<Rightarrow> string \<Rightarrow> string \<Rightarrow> world \<Rightarrow> (py_exception + string) \<times> world" where
  "generate_travel_insights_pdf e json_file_path output_pdf w =
     (case files w json_file_path of
        None \<Rightarrow> (Inl (FileNotFoundError (''JSON file not found: '' @ json_file_path)), w)
      | Some (HtmlFile _) \<Rightarrow> (Inl JSONDecodeError, w)
      | Some (PdfFile _ _) \<Rightarrow> (Inl UnicodeDecodeError, w)
      | Some (JsonFile route_data) \<Rightarrow>
          (let trip_info = trip route_data
           in case routes route_data of
                [] \<Rightarrow> (Inl IndexError, w)
              | main_route # _ \<Rightarrow>
                  (case fare_info main_route of
                     None \<Rightarrow> (Inl (KeyError ''fare_info''), w)
                   | Some fi \<Rightarrow>
                       (case map snd (fares fi) of
                          [] \<Rightarrow> (Inl IndexError, w)
                        | first_fare # _ \<Rightarrow>
                            (let pr = \<lparr>p_strategy = strategy main_route,
                                       p_distance = distance_text main_route,
                                       p_duration = duration_text main_route,
                                       p_fare = fare first_fare,
                                       p_start = trip_start trip_info,
                                       p_end = trip_end trip_info\<rparr>;
                                 w1 = w\<lparr>gemini_requests := gemini_requests w @ [pr]\<rparr>
                             in case gemini_post e pr of
                                  Inl x \<Rightarrow> (Inl x, w1)
                                | Inr data \<Rightarrow>
                                    (case gemini_error data of
                                       Some m \<Rightarrow> (Inl (PyException (''API Error: '' @ m)), w1)
                                     | None \<Rightarrow>
                                         (case candidates data of
                                            None \<Rightarrow> (Inl (KeyError ''candidates''), w1)
                                          | Some [] \<Rightarrow> (Inl IndexError, w1)
                                          | Some (insights # _) \<Rightarrow>
                                              (Inr output_pdf,
                                               create_pdf_with_wrapping output_pdf guide_title
                                                 insights w1))))))))"

section \<open>main.py\<close>

record TripRequest =
  start_point :: string
  end_point :: string
  transport_mode :: string

record TripResponse =
  success :: bool
  message :: string
  response_data_file :: "string option"
  response_map_file :: "string option"

text \<open>The body of the \<open>try\<close> statement of \<open>plan_trip\<close>. The planner's result always has the
  key \<open>data_file\<close>, so the test on it succeeds.\<close>

definition plan_trip_try :: "env \<Rightarrow> TripRequest \<Rightarrow> world \<Rightarrow> (py_exception + TripResponse) \<times> world" where
  "plan_trip_try e request w =
     (if strip (start_point request) = [] \<or> strip (end_point request) = [] then
        (Inl (HTTPException 400 ''Start point and end point are required''), w)
      else
        (case plan_trip_with_routes e (start_point request) (end_point request)
                (transport_mode request) w of
           (Inl x, w') \<Rightarrow> (Inl x, w')
         | (Inr result, w') \<Rightarrow>
             (Inr \<lparr>success = True, message = ''Trip planned successfully'',
                   response_data_file = Some (data_file result),
                   response_map_file = Some (map_file result)\<rparr>, w')))"

text \<open>The \<open>try\<close> statement with its handler \<open>except Exception as e\<close>, which catches every
  exception of the body, the \<open>HTTPException\<close> raised by the validation included.\<close>

definition plan_trip :: "env \<Rightarrow> TripRequest \<Rightarrow> world \<Rightarrow> (py_exception + TripResponse) \<times> world" where
  "plan_trip e request w =
     (case plan_trip_try e request w of
        (Inl x, w') \<Rightarrow> (Inl (HTTPException 500 (''Error planning trip: '' @ str_exception x)), w')
      | (Inr response, w') \<Rightarrow> (Inr response, w'))"

text \<open>The status code of the HTTP response: 200 for a returned body, else the code of the
  \<open>HTTPException\<close>; any other exception leaving the handler is an internal server error.\<close>

fun status_code :: "py_exception + TripResponse \<Rightarrow> nat" where
  "status_code (Inr response) = 200"
| "status_code (Inl (HTTPException code detail)) = code"
| "status_code (Inl x) = 500"

section \<open>json\<close>

text \<open>
  The values \<open>json.dump\<close> takes and \<open>json.load\<close> returns: \<open>None\<close>, booleans, integers,
  floats, strings, lists, and dictionaries with string keys in insertion order.
\<close>

datatype pyval =
    PNone
  | PBool bool
  | PInt int
  | PFloat pyfloat
  | PStr string
  | PList "pyval list"
  | PDict "(string \<times> pyval) list"

subsection \<open>Strings in JSON text\<close>

text \<open>
  Well-formed UTF-8: shortest encodings of the code points up to U+10FFFF, surrogates
  excluded.
\<close>

definition continuation :: "char \<Rightarrow> bool" where
  "continuation c = (128 \<le> (of_char c :: nat) \<and> (of_char c :: nat) < 192)"

fun utf8 :: "string \<Rightarrow> bool" where
  "utf8 [] = True"
| "utf8 (c # s) =
     (let n = (of_char c :: nat)
      in if n < 128 then utf8 s
         else if 194 \<le> n \<and> n < 224 then
           (case s of
              c2 # s' \<Rightarrow> continuation c2 \<and> utf8 s'
            | _ \<Rightarrow> False)
         else if 224 \<le> n \<and> n < 240 then
           (case s of
              c2 # c3 # s' \<Rightarrow>
                continuation c2 \<and> continuation c3
                \<and> 2048 \<le> (n - 224) * 4096 + (of_char c2 - 128) * 64 + (of_char c3 - 128)
                \<and> \<not> (55296 \<le> (n - 224) * 4096 + (of_char c2 - 128) * 64 + (of_char c3 - 128)
                       \<and> (n - 224) * 4096 + (of_char c2 - 128) * 64 + (of_char c3 - 128) \<le> 57343)
                \<and> utf8 s'
            | _ \<Rightarrow> False)
         else if 240 \<le> n \<and> n < 245 then
           (case s of
              c2 # c3 # c4 # s' \<Rightarrow>
                continuation c2 \<and> continuation c3 \<and> continuation c4
                \<and> 65536 \<le> (n - 240) * 262144 + (of_char c2 - 128) * 4096
                              + (of_char c3 - 128) * 64 + (of_char c4 - 128)
                \<and> (n - 240) * 262144 + (of_char c2 - 128) * 4096
                      + (of_char c3 - 128) * 64 + (of_char c4 - 128) \<le> 1114111
                \<and> utf8 s'
            | _ \<Rightarrow> False)
         else False)"

definition hex_digit :: "nat \<Rightarrow> char" where
  "hex_digit d = ''0123456789abcdef'' ! d"

definition hex4 :: "nat \<Rightarrow> string" where
  "hex4 n = [hex_digit (n div 4096 mod 16), hex_digit (n div 256 mod 16),
             hex_digit (n div 16 mod 16), hex_digit (n mod 16)]"

definition u_escape :: "nat \<Rightarrow> string" where
  "u_escape n = [CHR 0x5C, CHR ''u''] @ hex4 n"

text \<open>The replacement of one ASCII character by \<open>encode_basestring_ascii\<close>: short escapes
  for the quote, the backslash and five control characters, \<open>\uXXXX\<close> for every other
  character outside space..tilde.\<close>

definition escape_ascii :: "char \<Rightarrow> string" where
  "escape_ascii c =
     (if c = CHR 0x22 then [CHR 0x5C, CHR 0x22]
      else if c = CHR 0x5C then [CHR 0x5C, CHR 0x5C]
      else if c = CHR 0x0A then [CHR 0x5C, CHR ''n'']
      else if c = CHR 0x0D then [CHR 0x5C, CHR ''r'']
      else if c = CHR 0x09 then [CHR 0x5C, CHR ''t'']
      else if c = CHR 0x08 then [CHR 0x5C, CHR ''b'']
      else if c = CHR 0x0C then [CHR 0x5C, CHR ''f'']
      else if (of_char c :: nat) < 32 \<or> (of_char c :: nat) = 127 then u_escape (of_char c)
      else [c])"

text \<open>The escapes of a string, code point by code point; a code point beyond U+FFFF is
  written as its two surrogates.\<close>

fun escape :: "string \<Rightarrow> string" where
  "escape [] = []"
| "escape (c # s) =
     (let n = (of_char c :: nat)
      in if n < 128 then escape_ascii c @ escape s
         else if n < 224 then
           (case s of
              c2 # s' \<Rightarrow> u_escape ((n - 192) * 64 + (of_char c2 - 128)) @ escape s'
            | _ \<Rightarrow> [])
         else if n < 240 then
           (case s of
              c2 # c3 # s' \<Rightarrow>
                u_escape ((n - 224) * 4096 + (of_char c2 - 128) * 64 + (of_char c3 - 128))
                @ escape s'
            | _ \<Rightarrow> [])
         else
           (case s of
              c2 # c3 # c4 # s' \<Rightarrow>
                (let v = (n - 240) * 262144 + (of_char c2 - 128) * 4096
                           + (of_char c3 - 128) * 64 + (of_char c4 - 128) - 65536
                 in u_escape (55296 + v div 1024) @ u_escape (56320 + v mod 1024))
                @ escape s'
            | _ \<Rightarrow> []))"

definition encode_basestring_ascii :: "string \<Rightarrow> string" where
  "encode_basestring_ascii s = CHR 0x22 # escape s @ [CHR 0x22]"

subsection \<open>json.dump with indent=2\<close>

definition newline_indent :: "nat \<Rightarrow> string" where
  "newline_indent level = CHR 0x0A # replicate (2 * level) (CHR '' '')"

text \<open>
  The text of a value at an indentation level. A non-empty list or dictionary opens its
  bracket, puts each item on a line of its own one level deeper, items separated by a comma,
  and closes the bracket on a line at its own level. \<open>fr\<close> is \<open>float.__repr__\<close>.
\<close>

fun iterencode :: "(pyfloat \<Rightarrow> string) \<Rightarrow> nat \<Rightarrow> pyval \<Rightarrow> string"
  and iterencode_list :: "(pyfloat \<Rightarrow> string) \<Rightarrow> nat \<Rightarrow> pyval list \<Rightarrow> string"
  and iterencode_dict :: "(pyfloat \<Rightarrow> string) \<Rightarrow> nat \<Rightarrow> (string \<times> pyval) list \<Rightarrow> string"
where
  "iterencode fr level PNone = ''null''"
| "iterencode fr level (PBool b) = (if b then ''true'' else ''false'')"
| "iterencode fr level (PInt i) = str_int i"
| "iterencode fr level (PFloat x) = fr x"
| "iterencode fr level (PStr s) = encode_basestring_ascii s"
| "iterencode fr level (PList vs) =
     (if vs = [] then ''[]''
      else ''['' @ newline_indent (Suc level) @ iterencode_list fr (Suc level) vs
           @ newline_indent level @ '']'')"
| "iterencode fr level (PDict kvs) =
     (if kvs = [] then ''{}''
      else ''{'' @ newline_indent (Suc level) @ iterencode_dict fr (Suc level) kvs
           @ newline_indent level @ ''}'')"
| "iterencode_list fr level [] = []"
| "iterencode_list fr level (v # vs) =
     iterencode fr level v
     @ (if vs = [] then [] else '','' @ newline_indent level @ iterencode_list fr level vs)"
| "iterencode_dict fr level [] = []"
| "iterencode_dict fr level (kv # kvs) =
     encode_basestring_ascii (fst kv) @ '': '' @ iterencode fr level (snd kv)
     @ (if kvs = [] then [] else '','' @ newline_indent level @ iterencode_dict fr level kvs)"

definition json_dumps :: "(pyfloat \<Rightarrow> string) \<Rightarrow> pyval \<Rightarrow> string" where
  "json_dumps fr v = iterencode fr 0 v"

subsection \<open>json.load\<close>

definition json_ws :: "char \<Rightarrow> bool" where
  "json_ws c = (c = CHR '' '' \<or> c = CHR 0x09 \<or> c = CHR 0x0A \<or> c = CHR 0x0D)"

definition skip_ws :: "string \<Rightarrow> string" where
  "skip_ws s = dropWhile json_ws s"

definition unhex :: "char \<Rightarrow> nat option" where
  "unhex c =
     (let n = (of_char c :: nat)
      in if 48 \<le> n \<and> n \<le> 57 then Some (n - 48)
         else if 97 \<le> n \<and> n \<le> 102 then Some (n - 87)
         else if 65 \<le> n \<and> n \<le> 70 then Some (n - 55)
         else None)"

fun unhex4 :: "string \<Rightarrow> nat option" where
  "unhex4 [a, b, c, d] =
     (case (unhex a, unhex b, unhex c, unhex d) of
        (Some x, Some y, Some z, Some u) \<Rightarrow> Some (x * 4096 + y * 256 + z * 16 + u)
      | _ \<Rightarrow> None)"
| "unhex4 s = None"

text \<open>The UTF-8 encoding of a code point.\<close>

definition utf8_of :: "nat \<Rightarrow> string" where
  "utf8_of cp =
     (if cp < 128 then [char_of cp]
      else if cp < 2048 then [char_of (192 + cp div 64), char_of (128 + cp mod 64)]
      else if cp < 65536 then
        [char_of (224 + cp div 4096), char_of (128 + cp div 64 mod 64), char_of (128 + cp mod 64)]
      else
        [char_of (240 + cp div 262144), char_of (128 + cp div 4096 mod 64),
         char_of (128 + cp div 64 mod 64), char_of (128 + cp mod 64)])"

definition simple_escape :: "char \<Rightarrow> char option" where
  "simple_escape c =
     (if c = CHR 0x22 then Some (CHR 0x22)
      else if c = CHR 0x5C then Some (CHR 0x5C)
      else if c = CHR ''/'' then Some (CHR ''/'')
      else if c = CHR ''b'' then Some (CHR 0x08)
      else if c = CHR ''f'' then Some (CHR 0x0C)
      else if c = CHR ''n'' then Some (CHR 0x0A)
      else if c = CHR ''r'' then Some (CHR 0x0D)
      else if c = CHR ''t'' then Some (CHR 0x09)
      else None)"

definition prepend :: "string \<Rightarrow> (string \<times> string) option \<Rightarrow> (string \<times> string) option" where
  "prepend cs r = map_option (\<lambda>(x, rest). (cs @ x, rest)) r"

text \<open>
  \<open>scanstring\<close>, from the character after the opening quote: the string and the text after
  the closing quote. A high surrogate followed by the escape of a low surrogate is one code
  point; a raw character below space is refused.
\<close>

function scanstring :: "string \<Rightarrow> (string \<times> string) option" where
  "scanstring [] = None"
| "scanstring (c # s) =
     (if c = CHR 0x22 then Some ([], s)
      else if c = CHR 0x5C then
        (case s of
           [] \<Rightarrow> None
         | e # s1 \<Rightarrow>
             if e = CHR ''u'' then
               (case unhex4 (take 4 s1) of
                  None \<Rightarrow> None
                | Some cp \<Rightarrow>
                    if 55296 \<le> cp \<and> cp \<le> 56319
                       \<and> take 2 (drop 4 s1) = [CHR 0x5C, CHR ''u''] then
                      (case unhex4 (take 4 (drop 6 s1)) of
                         None \<Rightarrow> None
                       | Some cp2 \<Rightarrow>
                           if 56320 \<le> cp2 \<and> cp2 \<le> 57343 then
                             prepend (utf8_of (65536 + (cp - 55296) * 1024 + (cp2 - 56320)))
                               (scanstring (drop 10 s1))
                           else prepend (utf8_of cp) (scanstring (drop 4 s1)))
                    else prepend (utf8_of cp) (scanstring (drop 4 s1)))
             else
               (case simple_escape e of
                  None \<Rightarrow> None
                | Some ch \<Rightarrow> prepend [ch] (scanstring s1)))
      else if (of_char c :: nat) < 32 then None
      else prepend [c] (scanstring s))"
  by pat_completeness auto
termination
  by (relation "measure length") auto

declare scanstring.simps(2) [simp del]

subsection \<open>Numbers\<close>

definition digit :: "char \<Rightarrow> bool" where
  "digit c = (48 \<le> (of_char c :: nat) \<and> (of_char c :: nat) \<le> 57)"

definition nat_of_digits :: "string \<Rightarrow> nat" where
  "nat_of_digits ds = foldl (\<lambda>a c. 10 * a + (of_char c - 48)) 0 ds"

text \<open>
  The number at the start of a text: an optional minus sign, a zero or a run of digits not
  starting with zero, then a fraction when a point and a digit follow, then an exponent when
  \<open>e\<close> or \<open>E\<close>, an optional sign and a digit follow. Without fraction and exponent the number
  is an integer; otherwise it is the float nearest to the decimal.
\<close>

definition scan_int_part :: "string \<Rightarrow> (string \<times> string) option" where
  "scan_int_part s =
     (case s of
        [] \<Rightarrow> None
      | c # t \<Rightarrow>
          if c = CHR ''0'' then Some (''0'', t)
          else if digit c then Some (takeWhile digit s, dropWhile digit s)
          else None)"

definition scan_frac :: "string \<Rightarrow> string \<times> string" where
  "scan_frac s =
     (case s of
        c # d # t \<Rightarrow>
          if c = CHR ''.'' \<and> digit d then (takeWhile digit (d # t), dropWhile digit (d # t))
          else ([], s)
      | _ \<Rightarrow> ([], s))"

definition scan_exp :: "string \<Rightarrow> int option \<times> string" where
  "scan_exp s =
     (case s of
        c # t \<Rightarrow>
          if c = CHR ''e'' \<or> c = CHR ''E'' then
            (case t of
               d # u \<Rightarrow>
                 if digit d then
                   (Some (int (nat_of_digits (takeWhile digit t))), dropWhile digit t)
                 else if (d = CHR ''+'' \<or> d = CHR ''-'') \<and> u \<noteq> [] \<and> digit (hd u) then
                   (Some ((if d = CHR ''-'' then - 1 else 1)
                            * int (nat_of_digits (takeWhile digit u))),
                    dropWhile digit u)
                 else (None, s)
             | [] \<Rightarrow> (None, s))
          else (None, s)
      | [] \<Rightarrow> (None, s))"

definition float_of_decimal :: "bool \<Rightarrow> string \<Rightarrow> string \<Rightarrow> int \<Rightarrow> pyfloat" where
  "float_of_decimal negative ds fs ex =
     binary64
       ((if negative then - 1 else 1)
        * (of_nat (nat_of_digits ds) + of_nat (nat_of_digits fs) / 10 ^ length fs)
        * (if 0 \<le> ex then 10 ^ nat ex else 1 / 10 ^ nat (- ex)))"

definition scan_number :: "string \<Rightarrow> (pyval \<times> string) option" where
  "scan_number s =
     (let negative = (s \<noteq> [] \<and> hd s = CHR ''-'');
          s1 = (if negative then tl s else s)
      in case scan_int_part s1 of
           None \<Rightarrow> None
         | Some (ds, s2) \<Rightarrow>
             (let (fs, s3) = scan_frac s2;
                  (ex, s4) = scan_exp s3
              in if fs = [] \<and> ex = None then
                   Some (PInt ((if negative then - 1 else 1) * int (nat_of_digits ds)), s4)
                 else
                   Some (PFloat (float_of_decimal negative ds fs (case ex of Some x \<Rightarrow> x | None \<Rightarrow> 0)),
                         s4)))"

text \<open>What follows a value in the text written by \<open>json.dump\<close>: the end of the text, a
  comma or a line break.\<close>

definition delimited :: "string \<Rightarrow> bool" where
  "delimited rest = (rest = [] \<or> hd rest = CHR '','' \<or> hd rest = CHR 0x0A)"

subsection \<open>Values\<close>

text \<open>\<open>dict(pairs)\<close>: a later pair with the key of an earlier one replaces its value.\<close>

fun dict_update :: "string \<Rightarrow> pyval \<Rightarrow> (string \<times> pyval) list \<Rightarrow> (string \<times> pyval) list" where
  "dict_update k v [] = [(k, v)]"
| "dict_update k v (kv # kvs) =
     (if fst kv = k then (k, v) # kvs else kv # dict_update k v kvs)"

definition dict_of_pairs :: "(string \<times> pyval) list \<Rightarrow> (string \<times> pyval) list" where
  "dict_of_pairs pairs = foldl (\<lambda>d kv. dict_update (fst kv) (snd kv) d) [] pairs"

text \<open>
  The scanner, with the depth of its recursion bounded by a number: \<open>scan_once\<close> reads one
  value, \<open>parse_array\<close> the items of a list up to its closing bracket, \<open>parse_object\<close> the
  items of a dictionary up to its closing brace. A constant \<open>NaN\<close> or \<open>Infinity\<close> is not a
  finite float and has no value here.
\<close>

fun scan_once :: "nat \<Rightarrow> string \<Rightarrow> (pyval \<times> string) option"
  and parse_array :: "nat \<Rightarrow> string \<Rightarrow> (pyval list \<times> string) option"
  and parse_object :: "nat \<Rightarrow> string \<Rightarrow> ((string \<times> pyval) list \<times> string) option"
where
  "scan_once 0 s = None"
| "scan_once (Suc n) s =
     (case s of
        [] \<Rightarrow> None
      | c # t \<Rightarrow>
          if c = CHR 0x22 then map_option (\<lambda>(x, r). (PStr x, r)) (scanstring t)
          else if c = CHR ''{'' then
            (case skip_ws t of
               [] \<Rightarrow> None
             | c1 # t1 \<Rightarrow>
                 if c1 = CHR ''}'' then Some (PDict [], t1)
                 else map_option (\<lambda>(kvs, r). (PDict (dict_of_pairs kvs), r))
                        (parse_object n (c1 # t1)))
          else if c = CHR ''['' then
            (case skip_ws t of
               [] \<Rightarrow> None
             | c1 # t1 \<Rightarrow>
                 if c1 = CHR '']'' then Some (PList [], t1)
                 else map_option (\<lambda>(vs, r). (PList vs, r)) (parse_array n (c1 # t1)))
          else if take 4 s = ''null'' then Some (PNone, drop 4 s)
          else if take 4 s = ''true'' then Some (PBool True, drop 4 s)
          else if take 5 s = ''false'' then Some (PBool False, drop 5 s)
          else scan_number s)"
| "parse_array 0 s = None"
| "parse_array (Suc n) s =
     (case scan_once n s of
        None \<Rightarrow> None
      | Some (v, r) \<Rightarrow>
          (case skip_ws r of
             [] \<Rightarrow> None
           | c # t \<Rightarrow>
               if c = CHR '']'' then Some ([v], t)
               else if c = CHR '','' then
                 map_option (\<lambda>(vs, r'). (v # vs, r')) (parse_array n (skip_ws t))
               else None))"
| "parse_object 0 s = None"
| "parse_object (Suc n) s =
     (case s of
        [] \<Rightarrow> None
      | q # s0 \<Rightarrow>
          if q \<noteq> CHR 0x22 then None
          else
            (case scanstring s0 of
               None \<Rightarrow> None
             | Some (k, r) \<Rightarrow>
                 (case skip_ws r of
                    [] \<Rightarrow> None
                  | c # t \<Rightarrow>
                      if c \<noteq> CHR '':'' then None
                      else
                        (case scan_once n (skip_ws t) of
                           None \<Rightarrow> None
                         | Some (v, r1) \<Rightarrow>
                             (case skip_ws r1 of
                                [] \<Rightarrow> None
                              | c1 # t1 \<Rightarrow>
                                  if c1 = CHR ''}'' then Some ([(k, v)], t1)
                                  else if c1 = CHR '','' then
                                    map_option (\<lambda>(kvs, r'). ((k, v) # kvs, r'))
                                      (parse_object n (skip_ws t1))
                                  else None)))))"

text \<open>\<open>json.loads\<close>: one value, with nothing but whitespace before and after it. The depth
  allowed grows with the text, two calls for each character.\<close>

definition json_loads :: "string \<Rightarrow> py_exception + pyval" where
  "json_loads s =
     (case scan_once (2 * length s + 1) (skip_ws s) of
        None \<Rightarrow> Inl JSONDecodeError
      | Some (v, r) \<Rightarrow> if skip_ws r = [] then Inr v else Inl JSONDecodeError)"

subsection \<open>The route data file as text\<close>

text \<open>The dictionaries the records stand for, keys in the order the code inserts them.\<close>

definition fare_entry_dict :: "fare_entry \<Rightarrow> pyval" where
  "fare_entry_dict f = PDict [(''fare'', PFloat (fare f)), (''currency'', PStr (currency f))]"

definition fare_info_dict :: "fare_info \<Rightarrow> pyval" where
  "fare_info_dict fi =
     PDict [(''fares'', PDict (map (\<lambda>kf. (fst kf, fare_entry_dict (snd kf))) (fares fi))),
            (''distance_km'', PFloat (distance_km fi))]"

definition route_items :: "route \<Rightarrow> (string \<times> pyval) list" where
  "route_items r =
     [(''summary'', PStr (summary r)),
      (''distance'', PInt (distance r)),
      (''duration'', PInt (duration r)),
      (''distance_text'', PStr (distance_text r)),
      (''duration_text'', PStr (duration_text r))]
     @ (case polyline r of Some p \<Rightarrow> [(''polyline'', PStr p)] | None \<Rightarrow> [])
     @ [(''strategy'', PStr (strategy r))]
     @ (case route_number r of Some i \<Rightarrow> [(''route_number'', PInt i)] | None \<Rightarrow> [])
     @ (case fare_info r of Some fi \<Rightarrow> [(''fare_info'', fare_info_dict fi)] | None \<Rightarrow> [])"

definition trip_record_dict :: "trip_record \<Rightarrow> pyval" where
  "trip_record_dict doc =
     PDict [(''trip'', PDict [(''start'', PStr (trip_start (trip doc))),
                             (''end'', PStr (trip_end (trip doc))),
                             (''mode'', PStr (trip_mode (trip doc))),
                             (''generated_at'', PStr (generated_at (trip doc)))]),
            (''routes'', PList (map (\<lambda>r. PDict (route_items r)) (routes doc)))]"

text \<open>The text of the route data file, as \<open>json.dump(data, f, indent=2)\<close> writes it, and
  what \<open>json.load\<close> returns for the file of a name.\<close>

definition json_text :: "env \<Rightarrow> trip_record \<Rightarrow> string" where
  "json_text e doc = json_dumps (float_repr e) (trip_record_dict doc)"

definition json_load :: "env \<Rightarrow> world \<Rightarrow> string \<Rightarrow> py_exception + pyval" where
  "json_load e w filename =
     (case files w filename of
        Some (JsonFile doc) \<Rightarrow> json_loads (json_text e doc)
      | Some _ \<Rightarrow> Inl JSONDecodeError
      | None \<Rightarrow> Inl (FileNotFoundError filename))"

text \<open>What has to hold of a value for its text to be read back: strings are well-formed,
  the keys of a dictionary differ, and \<open>fr\<close> prints a float as a number that reads as it.\<close>

fun json_value :: "(pyfloat \<Rightarrow> string) \<Rightarrow> pyval \<Rightarrow> bool"
  and json_values :: "(pyfloat \<Rightarrow> string) \<Rightarrow> pyval list \<Rightarrow> bool"
  and json_items :: "(pyfloat \<Rightarrow> string) \<Rightarrow> (string \<times> pyval) list \<Rightarrow> bool"
where
  "json_value fr PNone = True"
| "json_value fr (PBool b) = True"
| "json_value fr (PInt i) = True"
| "json_value fr (PFloat x) = (scan_number (fr x) = Some (PFloat x, []))"
| "json_value fr (PStr s) = utf8 s"
| "json_value fr (PList vs) = json_values fr vs"
| "json_value fr (PDict kvs) = (distinct (map fst kvs) \<and> json_items fr kvs)"
| "json_values fr [] = True"
| "json_values fr (v # vs) = (json_value fr v \<and> json_values fr vs)"
| "json_items fr [] = True"
| "json_items fr (kv # kvs) = (utf8 (fst kv) \<and> json_value fr (snd kv) \<and> json_items fr kvs)"

text \<open>The depth of the scanner's recursion on the text of a value.\<close>

fun scan_depth :: "pyval \<Rightarrow> nat"
  and scan_depth_list :: "pyval list \<Rightarrow> nat"
  and scan_depth_dict :: "(string \<times> pyval) list \<Rightarrow> nat"
where
  "scan_depth PNone = 1"
| "scan_depth (PBool b) = 1"
| "scan_depth (PInt i) = 1"
| "scan_depth (PFloat x) = 1"
| "scan_depth (PStr s) = 1"
| "scan_depth (PList vs) = Suc (scan_depth_list vs)"
| "scan_depth (PDict kvs) = Suc (scan_depth_dict kvs)"
| "scan_depth_list [] = 0"
| "scan_depth_list (v # vs) = Suc (max (scan_depth v) (scan_depth_list vs))"
| "scan_depth_dict [] = 0"
| "scan_depth_dict (kv # kvs) = Suc (max (scan_depth (snd kv)) (scan_depth_dict kvs))"

section \<open>Example data\<close>

definition example_api_route :: "int \<Rightarrow> int \<Rightarrow> api_route" where
  "example_api_route d t =
     \<lparr>api_summary = Some ''NH48'',
      legs = [\<lparr>leg_distance = \<lparr>tv_text = ''150 km'', tv_value = d\<rparr>,
               leg_duration = \<lparr>tv_text = ''3 hours'', tv_value = t\<rparr>\<rparr>],
      overview_polyline_points = ''abc''\<rparr>"

text \<open>\<open>float.__repr__\<close> on whole numbers below \<open>1e16\<close>: the integer, a point and a zero.\<close>

definition repr_whole :: "pyfloat \<Rightarrow> string" where
  "repr_whole x = str_int \<lfloor>x\<rfloor> @ ''.0''"

definition example_env :: env where
  "example_env =
     \<lparr>API_KEY = Some ''AIzaExample'',
      gmaps_Client = (\<lambda>k. Inr ()),
      geocode_get = (\<lambda>p. Inr \<lparr>results = Some [\<lparr>geometry_location = \<lparr>lat = 19, lng = 73\<rparr>,
                                                 formatted_address = gp_address p\<rparr>],
                               geocode_status = ''OK''\<rparr>),
      directions_get = (\<lambda>p. Inr \<lparr>status = Some ''OK'',
                                  resp_routes = Some [example_api_route 150000 10800,
                                                      example_api_route 150000 10800,
                                                      example_api_route 162000 12600]\<rparr>),
      polyline_decode = (\<lambda>s. Inr [(19, 73)]),
      gemini_post = (\<lambda>p. Inr \<lparr>gemini_error = None, candidates = Some [''A guide'']\<rparr>),
      now_isoformat = ''2024-01-01T00:00:00'',
      str_upper = ascii_upper,
      str_lower = ascii_lower,
      float_repr = repr_whole\<rparr>"

definition zero_results_env :: env where
  "zero_results_env =
     example_env
       \<lparr>geocode_get := (\<lambda>p. Inr \<lparr>results = Some [], geocode_status = ''ZERO_RESULTS''\<rparr>),
        directions_get := (\<lambda>p. Inr \<lparr>status = Some ''ZERO_RESULTS'', resp_routes = Some []\<rparr>)\<rparr>"

definition empty_world :: world where
  "empty_world = \<lparr>files = Map.empty, gemini_requests = []\<rparr>"

definition example_route :: "int \<Rightarrow> int \<Rightarrow> string \<Rightarrow> route" where
  "example_route d t s =
     \<lparr>summary = ''NH48'', distance = d, duration = t, distance_text = ''150 km'',
      duration_text = ''3 hours'', polyline = Some ''abc'', strategy = s, route_number = None,
      fare_info = None\<rparr>"

section \<open>Deduplication\<close>

lemma nth_filter_shift:
  "map (nth (r # rs)) (filter P [0..<length (r # rs)]) =
     (if P 0 then [r] else []) @ map (nth rs) (filter (\<lambda>i. P (Suc i)) [0..<length rs])"
proof -
  have shift: "[0..<length (r # rs)] = 0 # map Suc [0..<length rs]"
    by (simp add: upt_conv_Cons map_Suc_upt del: upt_Suc)
  show ?thesis
    unfolding shift by (simp add: filter_map o_def)
qed

lemma remove_duplicates_loop_index:
  "remove_duplicates_loop rs seen unique =
     unique @ map (nth rs)
       (filter (\<lambda>i. route_key (rs ! i) \<notin> seen \<union> route_key ` set (take i rs)) [0..<length rs])"
proof (induction rs arbitrary: seen unique)
  case Nil
  then show ?case by simp
next
  case (Cons r rs)
  let ?P = "\<lambda>i. route_key ((r # rs) ! i) \<notin> seen \<union> route_key ` set (take i (r # rs))"
  show ?case
  proof (cases "route_key r \<in> seen")
    case True
    have same: "filter (\<lambda>i. route_key (rs ! i) \<notin> seen \<union> route_key ` set (take i rs)) [0..<length rs]
        = filter (\<lambda>i. ?P (Suc i)) [0..<length rs]"
      using True by (intro filter_cong) auto
    have "remove_duplicates_loop (r # rs) seen unique = remove_duplicates_loop rs seen unique"
      using True by simp
    also have "\<dots> = unique @ map (nth rs) (filter (\<lambda>i. ?P (Suc i)) [0..<length rs])"
      unfolding Cons.IH same ..
    also have "\<dots> = unique @ map (nth (r # rs)) (filter ?P [0..<length (r # rs)])"
      unfolding nth_filter_shift using True by simp
    finally show ?thesis .
  next
    case False
    have same: "filter (\<lambda>i. route_key (rs ! i) \<notin> insert (route_key r) seen \<union> route_key ` set (take i rs))
           [0..<length rs]
        = filter (\<lambda>i. ?P (Suc i)) [0..<length rs]"
      by (intro filter_cong) auto
    have "remove_duplicates_loop (r # rs) seen unique
        = remove_duplicates_loop rs (insert (route_key r) seen) (unique @ [r])"
      using False by simp
    also have "\<dots> = (unique @ [r]) @ map (nth rs) (filter (\<lambda>i. ?P (Suc i)) [0..<length rs])"
      unfolding Cons.IH same ..
    also have "\<dots> = unique @ map (nth (r # rs)) (filter ?P [0..<length (r # rs)])"
      unfolding nth_filter_shift using False by simp
    finally show ?thesis .
  qed
qed

lemma remove_duplicates_loop_unique:
  "remove_duplicates_loop rs seen unique = unique @ remove_duplicates_loop rs seen []"
  by (simp add: remove_duplicates_loop_index)

lemma remove_duplicates_loop_Cons:
  "remove_duplicates_loop (r # rs) seen [] =
     (if route_key r \<in> seen then remove_duplicates_loop rs seen []
      else r # remove_duplicates_loop rs (insert (route_key r) seen) [])"
proof (cases "route_key r \<in> seen")
  case True
  then show ?thesis by simp
next
  case False
  then have "remove_duplicates_loop (r # rs) seen [] =
      remove_duplicates_loop rs (insert (route_key r) seen) [r]"
    by simp
  then show ?thesis
    using False remove_duplicates_loop_unique [of rs "insert (route_key r) seen" "[r]"] by simp
qed

declare remove_duplicates_loop.simps(2) [simp del]

lemma remove_duplicates_index:
  "remove_duplicates rs =
     map (nth rs) (filter (\<lambda>i. route_key (rs ! i) \<notin> route_key ` set (take i rs)) [0..<length rs])"
  by (simp add: remove_duplicates_def remove_duplicates_loop_index)

lemma remove_duplicates_loop_fresh:
  "route_key ` set (remove_duplicates_loop rs seen []) \<inter> seen = {}"
proof (induction rs arbitrary: seen)
  case Nil
  show ?case by simp
next
  case (Cons r rs)
  show ?case
    using Cons.IH [of seen] Cons.IH [of "insert (route_key r) seen"]
    by (auto simp: remove_duplicates_loop_Cons)
qed

lemma remove_duplicates_loop_distinct:
  "distinct (map route_key (remove_duplicates_loop rs seen []))"
proof (induction rs arbitrary: seen)
  case Nil
  show ?case by simp
next
  case (Cons r rs)
  have "route_key r \<notin> route_key ` set (remove_duplicates_loop rs (insert (route_key r) seen) [])"
    using remove_duplicates_loop_fresh [of rs "insert (route_key r) seen"] by auto
  then show ?case
    using Cons.IH [of seen] Cons.IH [of "insert (route_key r) seen"]
    by (simp add: remove_duplicates_loop_Cons)
qed

lemma remove_duplicates_loop_fixed:
  "distinct (map route_key rs) \<Longrightarrow> route_key ` set rs \<inter> seen = {} \<Longrightarrow>
     remove_duplicates_loop rs seen [] = rs"
proof (induction rs arbitrary: seen)
  case Nil
  show ?case by simp
next
  case (Cons r rs)
  have notin: "route_key r \<notin> seen" using Cons.prems(2) by auto
  have "route_key ` set rs \<inter> insert (route_key r) seen = {}"
    using Cons.prems by auto
  moreover have "distinct (map route_key rs)" using Cons.prems(1) by simp
  ultimately show ?case using notin Cons.IH by (simp add: remove_duplicates_loop_Cons)
qed

text \<open>
  C3. The deduplicator keeps the route at index \<open>i\<close> exactly when its (distance, duration,
  strategy) key is not the key of one of the \<open>i\<close> routes before it, and keeps the kept routes in their input order; the
  keys of the output are pairwise different. Two routes with equal distance and duration
  and different strategies are both kept; with the same strategy the second is dropped.
\<close>

theorem remove_duplicates_first_occurrences:
  "remove_duplicates rs =
     map (nth rs) (filter (\<lambda>i. route_key (rs ! i) \<notin> route_key ` set (take i rs)) [0..<length rs])
   \<and> distinct (map route_key (remove_duplicates rs))
   \<and> (distance r1 = distance r2 \<and> duration r1 = duration r2 \<and> strategy r1 \<noteq> strategy r2
        \<longrightarrow> remove_duplicates [r1, r2] = [r1, r2])
   \<and> (distance r1 = distance r2 \<and> duration r1 = duration r2 \<and> strategy r1 = strategy r2
        \<longrightarrow> remove_duplicates [r1, r2] = [r1])"
proof -
  have "distinct (map route_key (remove_duplicates rs))"
    by (simp add: remove_duplicates_def remove_duplicates_loop_distinct)
  moreover have "distance r1 = distance r2 \<and> duration r1 = duration r2 \<and> strategy r1 \<noteq> strategy r2
        \<longrightarrow> remove_duplicates [r1, r2] = [r1, r2]"
    by (simp add: remove_duplicates_def remove_duplicates_loop_Cons route_key_def)
  moreover have "distance r1 = distance r2 \<and> duration r1 = duration r2 \<and> strategy r1 = strategy r2
        \<longrightarrow> remove_duplicates [r1, r2] = [r1]"
    by (simp add: remove_duplicates_def remove_duplicates_loop_Cons route_key_def)
  ultimately show ?thesis
    using remove_duplicates_index [of rs] by blast
qed

theorem remove_duplicates_first_occurrences_witness:
  "remove_duplicates
     [example_route 150000 10800 ''Default'', example_route 150000 10800 ''No Tolls'',
      example_route 150000 10800 ''Default'', example_route 162000 12600 ''Default'']
   = [example_route 150000 10800 ''Default'', example_route 150000 10800 ''No Tolls'',
      example_route 162000 12600 ''Default'']
   \<and> remove_duplicates [example_route 150000 10800 ''Default'', example_route 150000 10800 ''No Tolls'']
     = [example_route 150000 10800 ''Default'', example_route 150000 10800 ''No Tolls'']
   \<and> remove_duplicates [example_route 150000 10800 ''Default'',
        (example_route 150000 10800 ''Default'')\<lparr>summary := ''Old road''\<rparr>]
     = [example_route 150000 10800 ''Default'']"
proof -
  let ?a = "example_route 150000 10800 ''Default''"
  let ?b = "example_route 150000 10800 ''No Tolls''"
  let ?c = "example_route 162000 12600 ''Default''"
  let ?a' = "?a\<lparr>summary := ''Old road''\<rparr>"
  have keys: "route_key ?a \<noteq> route_key ?b" "route_key ?a \<noteq> route_key ?c"
    "route_key ?b \<noteq> route_key ?c"
    by (simp_all add: route_key_def example_route_def)
  have "remove_duplicates [?a, ?b, ?a, ?c] = [?a, ?b, ?c]"
    using keys
    unfolding conjunct1 [OF remove_duplicates_first_occurrences [of "[?a, ?b, ?a, ?c]"]]
    by (simp add: upt_conv_Cons)
  moreover have "remove_duplicates [?a, ?b] = [?a, ?b]"
    using remove_duplicates_first_occurrences [of "[]" ?a ?b]
    by (simp add: example_route_def)
  moreover have "remove_duplicates [?a, ?a'] = [?a]"
    using remove_duplicates_first_occurrences [of "[]" ?a ?a']
    by (simp add: example_route_def)
  ultimately show ?thesis by simp
qed

text \<open>
  C4. Deduplication is idempotent: applied to its own output it returns that output.
\<close>

theorem remove_duplicates_idempotent:
  "remove_duplicates (remove_duplicates rs) = remove_duplicates rs"
  unfolding remove_duplicates_def
  by (rule remove_duplicates_loop_fixed) (simp_all add: remove_duplicates_loop_distinct)

section \<open>Route numbers\<close>

lemma enumerate_from_fst: "map fst (enumerate_from i xs) = [i..i + int (length xs) - 1]"
proof (induction xs arbitrary: i)
  case Nil
  show ?case by simp
next
  case (Cons x xs)
  have "[i..i + int (length (x # xs)) - 1] = i # [i + 1..i + 1 + int (length xs) - 1]"
    by (subst upto_rec1) (simp_all add: add.commute add.left_commute)
  then show ?case using Cons.IH [of "i + 1"] by simp
qed

lemma enumerate_from_snd: "map snd (enumerate_from i xs) = xs"
  by (induction xs arbitrary: i) simp_all

lemma route_number_renumber: "map route_number (renumber rs) = map Some [1..int (length rs)]"
proof -
  have "map route_number (renumber rs) = map (Some \<circ> fst) (enumerate_from 1 rs)"
    by (simp add: renumber_def case_prod_unfold o_def)
  also have "\<dots> = map Some (map fst (enumerate_from 1 rs))"
    by simp
  finally show ?thesis
    by (simp add: enumerate_from_fst)
qed

lemma length_enumerate_from: "length (enumerate_from i xs) = length xs"
  by (induction xs arbitrary: i) simp_all

lemma length_renumber: "length (renumber rs) = length rs"
  by (simp add: renumber_def length_enumerate_from)

lemma get_all_route_strategies_Inr:
  "get_all_route_strategies e k origin dest mode = Inr rs \<Longrightarrow>
     \<exists>fetched. rs = renumber (remove_duplicates fetched)"
  by (auto simp: get_all_route_strategies_def split: sum.splits if_splits)

lemma route_number_process_routes_with_fares:
  "map route_number (process_routes_with_fares rs mode) = map route_number rs"
  by (simp add: process_routes_with_fares_def o_def)

lemma plan_trip_with_routes_Inr:
  assumes "plan_trip_with_routes e start_place end_place travel_mode w = (Inr res, w')"
  shows "\<exists>k start_fmt end_fmt numbered.
           get_all_route_strategies e k start_fmt end_fmt (getattr_TravelMode (str_upper e travel_mode) DRIVE)
             = Inr numbered
           \<and> res = \<lparr>map_file = ''routes_map.html'', data_file = ''route_data.json'',
                    routes_found = length numbered\<rparr>
           \<and> files w' ''route_data.json'' = Some (JsonFile
               \<lparr>trip = \<lparr>trip_start = start_fmt, trip_end = end_fmt,
                         trip_mode = mode_value (getattr_TravelMode (str_upper e travel_mode) DRIVE),
                         generated_at = now_isoformat e\<rparr>,
                routes = map (\<lambda>r. r\<lparr>polyline := None\<rparr>)
                           (process_routes_with_fares numbered
                              (getattr_TravelMode (str_upper e travel_mode) DRIVE))\<rparr>)"
proof -
  let ?m = "getattr_TravelMode (str_upper e travel_mode) DRIVE"
  from assms obtain k where key: "API_KEY e = Some k"
    unfolding plan_trip_with_routes_def by (auto split: option.splits)
  from assms key obtain od oc sf where g1: "geocode_place e k start_place = Inr (od, oc, sf)"
    unfolding plan_trip_with_routes_def Let_def
    by (auto split: sum.splits if_splits)
  from assms key g1 obtain dd dc ef where g2: "geocode_place e k end_place = Inr (dd, dc, ef)"
    unfolding plan_trip_with_routes_def Let_def
    by (auto split: sum.splits if_splits)
  from assms key g1 g2 obtain numbered where
    rs: "get_all_route_strategies e k sf ef ?m = Inr numbered"
    unfolding plan_trip_with_routes_def Let_def
    by (auto split: sum.splits if_splits)
  from assms key g1 g2 rs obtain route_map where
    mp: "create_comprehensive_map e oc dc (process_routes_with_fares numbered ?m) sf ef = Inr route_map"
    unfolding plan_trip_with_routes_def Let_def
    by (auto split: sum.splits if_splits)
  from assms key g1 g2 rs mp have
    "res = \<lparr>map_file = ''routes_map.html'', data_file = ''route_data.json'',
            routes_found = length numbered\<rparr>"
    and "files w' ''route_data.json'' = Some (JsonFile
               \<lparr>trip = \<lparr>trip_start = sf, trip_end = ef, trip_mode = mode_value ?m,
                         generated_at = now_isoformat e\<rparr>,
                routes = map (\<lambda>r. r\<lparr>polyline := None\<rparr>)
                           (process_routes_with_fares numbered ?m)\<rparr>)"
    unfolding plan_trip_with_routes_def save_routes_data_def Let_def
    by (auto split: sum.splits if_splits simp: process_routes_with_fares_def)
  with rs show ?thesis by blast
qed

text \<open>
  C1. The routes returned by \<open>get_all_route_strategies\<close> are a deduplicated list renumbered:
  their \<open>route_number\<close> fields are 1, 2, ..., N in list order, N the length of the
  deduplicated list. A successful \<open>plan_trip_with_routes\<close> stores the same numbering in the
  route data file and reports N as \<open>routes_found\<close>.
\<close>

theorem route_numbers_contiguous:
  "(get_all_route_strategies e k origin dest mode = Inr rs \<longrightarrow>
      (\<exists>fetched. rs = renumber (remove_duplicates fetched)
                 \<and> length rs = length (remove_duplicates fetched))
      \<and> map route_number rs = map Some [1..int (length rs)])
   \<and> (plan_trip_with_routes e start_place end_place travel_mode w = (Inr res, w') \<longrightarrow>
        (\<exists>doc. files w' (data_file res) = Some (JsonFile doc)
               \<and> length (routes doc) = routes_found res
               \<and> map route_number (routes doc) = map Some [1..int (routes_found res)]))"
proof (intro conjI impI)
  assume "get_all_route_strategies e k origin dest mode = Inr rs"
  then obtain fetched where rs: "rs = renumber (remove_duplicates fetched)"
    using get_all_route_strategies_Inr by blast
  then show "\<exists>fetched. rs = renumber (remove_duplicates fetched)
                 \<and> length rs = length (remove_duplicates fetched)"
    using length_renumber by blast
  show "map route_number rs = map Some [1..int (length rs)]"
    unfolding rs by (simp add: route_number_renumber length_renumber)
next
  assume "plan_trip_with_routes e start_place end_place travel_mode w = (Inr res, w')"
  from plan_trip_with_routes_Inr [OF this]
  obtain k start_fmt end_fmt numbered ti where
    fetched: "get_all_route_strategies e k start_fmt end_fmt
                (getattr_TravelMode (str_upper e travel_mode) DRIVE) = Inr numbered"
    and res: "data_file res = ''route_data.json''" "routes_found res = length numbered"
    and stored: "files w' ''route_data.json'' = Some (JsonFile
                 \<lparr>trip = ti,
                  routes = map (\<lambda>r. r\<lparr>polyline := None\<rparr>)
                             (process_routes_with_fares numbered
                                (getattr_TravelMode (str_upper e travel_mode) DRIVE))\<rparr>)"
    by fastforce
  obtain fetched where numbered: "numbered = renumber (remove_duplicates fetched)"
    using get_all_route_strategies_Inr [OF fetched] by blast
  have "map route_number (map (\<lambda>r. r\<lparr>polyline := None\<rparr>)
          (process_routes_with_fares numbered (getattr_TravelMode (str_upper e travel_mode) DRIVE)))
        = map route_number numbered"
    by (simp add: process_routes_with_fares_def o_def)
  also have "\<dots> = map Some [1..int (length numbered)]"
    unfolding numbered by (simp add: route_number_renumber length_renumber)
  finally show "\<exists>doc. files w' (data_file res) = Some (JsonFile doc)
               \<and> length (routes doc) = routes_found res
               \<and> map route_number (routes doc) = map Some [1..int (routes_found res)]"
    using stored res by (simp add: process_routes_with_fares_def)
qed

theorem route_numbers_contiguous_witness:
  "(case get_all_route_strategies example_env ''key'' ''Mumbai'' ''Pune'' DRIVE of
      Inr rs \<Rightarrow> map route_number rs = [Some 1, Some 2, Some 3, Some 4, Some 5, Some 6]
    | Inl x \<Rightarrow> False)
   \<and> (case plan_trip_with_routes example_env ''Mumbai'' ''Pune'' ''drive'' empty_world of
        (Inr res, w') \<Rightarrow>
          routes_found res = 6
          \<and> (case files w' ''route_data.json'' of
               Some (JsonFile doc) \<Rightarrow>
                 map route_number (routes doc) = [Some 1, Some 2, Some 3, Some 4, Some 5, Some 6]
             | _ \<Rightarrow> False)
      | (Inl x, w') \<Rightarrow> False)"
proof -
  have "case get_all_route_strategies example_env ''key'' ''Mumbai'' ''Pune'' DRIVE of
          Inr rs \<Rightarrow> length rs = 6 | Inl x \<Rightarrow> False"
    by (simp add: get_all_route_strategies_def get_routes_google_api_def example_env_def
          example_api_route_def remove_duplicates_def remove_duplicates_loop_Cons route_key_def
          length_renumber)
  then obtain rs where
    rs: "get_all_route_strategies example_env ''key'' ''Mumbai'' ''Pune'' DRIVE = Inr rs"
    and len: "length rs = 6"
    by (auto split: sum.splits)
  have "map route_number rs = map Some [1..int (length rs)]"
    using route_numbers_contiguous
      [where e = example_env and k = "''key''" and origin = "''Mumbai''" and dest = "''Pune''"
         and mode = DRIVE and rs = rs] rs
    by blast
  then have first: "map route_number rs = [Some 1, Some 2, Some 3, Some 4, Some 5, Some 6]"
    by (simp add: len upto_rec1)
  have drive: "str_upper example_env ''drive'' = ''DRIVE''"
    unfolding example_env_def by code_simp
  have "case plan_trip_with_routes example_env ''Mumbai'' ''Pune'' ''drive'' empty_world of
          (Inr res, w') \<Rightarrow> routes_found res = 6 | (Inl x, w') \<Rightarrow> False"
    unfolding plan_trip_with_routes_def drive
    by (simp add: geocode_place_def
          getattr_TravelMode_def TravelMode_members_def create_comprehensive_map_def
          process_routes_with_fares_def enumerate_eq_zip upt_conv_Cons
          get_all_route_strategies_def get_routes_google_api_def example_env_def
          example_api_route_def remove_duplicates_def remove_duplicates_loop_Cons route_key_def
          renumber_def save_routes_data_def Let_def)
  then obtain res w' where
    plan: "plan_trip_with_routes example_env ''Mumbai'' ''Pune'' ''drive'' empty_world = (Inr res, w')"
    and found: "routes_found res = 6"
    by (auto split: sum.splits prod.splits)
  have name: "data_file res = ''route_data.json''"
    using plan_trip_with_routes_Inr [OF plan] by auto
  have "\<exists>doc. files w' (data_file res) = Some (JsonFile doc)
          \<and> length (routes doc) = routes_found res
          \<and> map route_number (routes doc) = map Some [1..int (routes_found res)]"
    using plan
    by (rule conjunct2 [OF route_numbers_contiguous
          [where e = example_env and start_place = "''Mumbai''" and end_place = "''Pune''"
             and travel_mode = "''drive''" and w = empty_world and res = res and w' = w'],
          rule_format])
  then obtain doc where
    doc: "files w' ''route_data.json'' = Some (JsonFile doc)"
    and nums: "map route_number (routes doc) = map Some [1..int (routes_found res)]"
    unfolding name by blast
  have second: "map route_number (routes doc) = [Some 1, Some 2, Some 3, Some 4, Some 5, Some 6]"
    using nums by (simp add: found upto_rec1)
  show ?thesis
    using rs first plan found doc second by simp
qed

section \<open>Fares\<close>

lemma round_half_even_near: "\<bar>of_int (round_half_even x) - x\<bar> \<le> 1 / 2"
proof -
  have "of_int \<lfloor>x\<rfloor> \<le> x" and "x < of_int \<lfloor>x\<rfloor> + 1"
    by linarith+
  then show ?thesis
    unfolding round_half_even_def Let_def by auto
qed

lemma per_km_values: "per_km ''personal_car'' = 7" "per_km ''personal_bike'' = 3"
  by (simp_all add: per_km_def fallback_rates_def)

lemma py_round_nearest:
  "\<exists>n::int. py_round x ndigits = binary64 (of_int n / 10 ^ ndigits)
            \<and> \<bar>of_int n / 10 ^ ndigits - x\<bar> \<le> 1 / (2 * 10 ^ ndigits)"
proof -
  define p :: rat where "p = 10 ^ ndigits"
  define n where "n = round_half_even (x * p)"
  have p: "0 < p" by (simp add: p_def)
  have near: "\<bar>of_int n - x * p\<bar> \<le> 1 / 2"
    unfolding n_def by (rule round_half_even_near)
  have "of_int n / p - x = (of_int n - x * p) / p"
    using p by (simp add: field_simps)
  then have "\<bar>of_int n / p - x\<bar> = \<bar>of_int n - x * p\<bar> / p"
    using p by (simp add: abs_divide)
  also have "\<dots> \<le> (1 / 2) / p"
    using near p by (rule divide_right_mono [OF _ less_imp_le])
  finally have "\<bar>of_int n / p - x\<bar> \<le> 1 / (2 * p)"
    by simp
  moreover have "py_round x ndigits = binary64 (of_int n / p)"
    by (simp add: py_round_def n_def p_def)
  ultimately show ?thesis
    unfolding p_def by blast
qed

text \<open>
  C2. For DRIVE the fares mapping has exactly the key \<open>personal_car\<close>, with the amount
  \<open>round(distance_meters / 1000 * 7, 0)\<close> and the currency INR; for TWO_WHEELER exactly the
  key \<open>personal_bike\<close> with the rate 3; for every other mode the mapping is empty. In all
  cases \<open>distance_km\<close> is \<open>round(distance_meters / 1000, 2)\<close>. The rounded amount is the
  float of a whole number within one half of the product, and \<open>distance_km\<close> the float of a
  two-place decimal within 0.005 of the quotient.
\<close>

theorem get_comprehensive_fares_by_mode:
  "get_comprehensive_fares d DRIVE =
     \<lparr>fares = [(''personal_car'',
                \<lparr>fare = py_round (fmul (truediv_int d 1000) 7) 0, currency = ''INR''\<rparr>)],
      distance_km = py_round (truediv_int d 1000) 2\<rparr>
   \<and> get_comprehensive_fares d TWO_WHEELER =
     \<lparr>fares = [(''personal_bike'',
                \<lparr>fare = py_round (fmul (truediv_int d 1000) 3) 0, currency = ''INR''\<rparr>)],
      distance_km = py_round (truediv_int d 1000) 2\<rparr>
   \<and> (mode \<noteq> DRIVE \<and> mode \<noteq> TWO_WHEELER \<longrightarrow>
        get_comprehensive_fares d mode =
          \<lparr>fares = [], distance_km = py_round (truediv_int d 1000) 2\<rparr>)
   \<and> (\<exists>n::int. py_round (fmul (truediv_int d 1000) rate) 0 = binary64 (of_int n)
          \<and> \<bar>of_int n - fmul (truediv_int d 1000) rate\<bar> \<le> 1 / 2)
   \<and> (\<exists>n::int. py_round (truediv_int d 1000) 2 = binary64 (of_int n / 100)
          \<and> \<bar>of_int n / 100 - truediv_int d 1000\<bar> \<le> 1 / 200)"
proof (intro conjI)
  show "get_comprehensive_fares d DRIVE =
     \<lparr>fares = [(''personal_car'',
                \<lparr>fare = py_round (fmul (truediv_int d 1000) 7) 0, currency = ''INR''\<rparr>)],
      distance_km = py_round (truediv_int d 1000) 2\<rparr>"
    by (simp add: get_comprehensive_fares_def per_km_values Let_def)
  show "get_comprehensive_fares d TWO_WHEELER =
     \<lparr>fares = [(''personal_bike'',
                \<lparr>fare = py_round (fmul (truediv_int d 1000) 3) 0, currency = ''INR''\<rparr>)],
      distance_km = py_round (truediv_int d 1000) 2\<rparr>"
    by (simp add: get_comprehensive_fares_def per_km_values Let_def)
  show "mode \<noteq> DRIVE \<and> mode \<noteq> TWO_WHEELER \<longrightarrow>
        get_comprehensive_fares d mode =
          \<lparr>fares = [], distance_km = py_round (truediv_int d 1000) 2\<rparr>"
    by (simp add: get_comprehensive_fares_def Let_def)
  show "\<exists>n::int. py_round (fmul (truediv_int d 1000) rate) 0 = binary64 (of_int n)
          \<and> \<bar>of_int n - fmul (truediv_int d 1000) rate\<bar> \<le> 1 / 2"
    using py_round_nearest [of "fmul (truediv_int d 1000) rate" 0] by simp
  show "\<exists>n::int. py_round (truediv_int d 1000) 2 = binary64 (of_int n / 100)
          \<and> \<bar>of_int n / 100 - truediv_int d 1000\<bar> \<le> 1 / 200"
    using py_round_nearest [of "truediv_int d 1000" 2] by simp
qed

theorem get_comprehensive_fares_by_mode_witness:
  "WALK \<noteq> DRIVE \<and> WALK \<noteq> TWO_WHEELER
   \<and> get_comprehensive_fares 123456 WALK =
       \<lparr>fares = [], distance_km = 8687725156174397 / 70368744177664\<rparr>
   \<and> get_comprehensive_fares 123456 DRIVE =
       \<lparr>fares = [(''personal_car'', \<lparr>fare = 864, currency = ''INR''\<rparr>)],
        distance_km = 8687725156174397 / 70368744177664\<rparr>"
proof -
  have km: "py_round (truediv_int 123456 1000) 2 = 8687725156174397 / 70368744177664"
    by code_simp
  have amount: "py_round (fmul (truediv_int 123456 1000) 7) 0 = 864"
    by code_simp
  have modes: "WALK \<noteq> DRIVE \<and> WALK \<noteq> TWO_WHEELER"
    by simp
  show ?thesis
    using get_comprehensive_fares_by_mode [of 123456 WALK] modes
    unfolding km amount by simp
qed

section \<open>Validation of the request\<close>

lemma str_nat_400: "str_nat 400 = ''400''"
  by code_simp

lemma plan_trip_blank:
  assumes "strip (start_point request) = [] \<or> strip (end_point request) = []"
  shows "plan_trip e request w =
           (Inl (HTTPException 500
              ''Error planning trip: 400: Start point and end point are required''), w)"
  using assms by (simp add: plan_trip_def plan_trip_try_def str_nat_400)

text \<open>
  C5. A request whose start point is empty or blank raises the \<open>HTTPException\<close> with status
  400 inside the \<open>try\<close> statement; the handler \<open>except Exception\<close> catches it and raises the
  one with status 500. The response has status 500, and the files are as before.
\<close>

theorem plan_trip_blank_start_point:
  "plan_trip e \<lparr>start_point = '''', end_point = ''Pune'', transport_mode = ''DRIVE''\<rparr> w =
     (Inl (HTTPException 500
        ''Error planning trip: 400: Start point and end point are required''), w)
   \<and> plan_trip e \<lparr>start_point = ''   '', end_point = ''Pune'', transport_mode = ''DRIVE''\<rparr> w =
     (Inl (HTTPException 500
        ''Error planning trip: 400: Start point and end point are required''), w)
   \<and> status_code
        (fst (plan_trip e \<lparr>start_point = '''', end_point = ''Pune'', transport_mode = ''DRIVE''\<rparr> w))
      = 500"
proof -
  have blank: "strip '''' = []" "strip ''   '' = []"
    by code_simp+
  show ?thesis
    by (simp add: plan_trip_blank blank)
qed

section \<open>Answers of the providers\<close>

text \<open>
  C6, as the code has it. When the directions provider answers with a status other than
  \<open>OK\<close>, \<open>_get_routes_google_api\<close> raises nothing and returns the empty list of routes for
  that query.
\<close>

theorem get_routes_google_api_not_OK:
  assumes "directions_get e
             \<lparr>dp_origin = origin, dp_destination = dest, dp_mode = str_lower e mode,
              dp_alternatives = True, dp_key = k,
              dp_avoid = (if avoid \<noteq> [] then Some (join ''|'' avoid) else None)\<rparr> = Inr resp"
    and "status resp = Some st"
    and "st \<noteq> ''OK''"
  shows "get_routes_google_api e k origin dest mode avoid strat = Inr []"
  using assms by (simp add: get_routes_google_api_def)

theorem get_routes_google_api_not_OK_witness:
  "get_routes_google_api zero_results_env ''key'' ''Mumbai'' ''Pune'' ''WALK'' [] ''Default'' = Inr []"
proof -
  have "directions_get zero_results_env
          \<lparr>dp_origin = ''Mumbai'', dp_destination = ''Pune'', dp_mode = str_lower zero_results_env ''WALK'',
           dp_alternatives = True, dp_key = ''key'',
           dp_avoid = (if ([] :: string list) \<noteq> [] then Some (join ''|'' []) else None)\<rparr>
        = Inr \<lparr>status = Some ''ZERO_RESULTS'', resp_routes = Some []\<rparr>"
    by (simp add: zero_results_env_def)
  moreover have "status \<lparr>status = Some ''ZERO_RESULTS'', resp_routes = Some []\<rparr> = Some ''ZERO_RESULTS''"
    by simp
  moreover have "''ZERO_RESULTS'' \<noteq> ''OK''"
    by simp
  ultimately show ?thesis
    by (rule get_routes_google_api_not_OK)
qed

text \<open>
  C6, as stated, fails: with the status \<open>ZERO_RESULTS\<close> for every query the fetch of one
  strategy and the fetch of all strategies both succeed, with no route.
\<close>

theorem get_routes_google_api_raises_counterexample:
  "directions_get zero_results_env
     \<lparr>dp_origin = ''Mumbai'', dp_destination = ''Pune'', dp_mode = ''drive'',
      dp_alternatives = True, dp_key = ''key'', dp_avoid = None\<rparr>
     = Inr \<lparr>status = Some ''ZERO_RESULTS'', resp_routes = Some []\<rparr>
   \<and> get_routes_google_api zero_results_env ''key'' ''Mumbai'' ''Pune'' ''DRIVE'' [] ''Default'' = Inr []
   \<and> get_all_route_strategies zero_results_env ''key'' ''Mumbai'' ''Pune'' DRIVE = Inr []"
  by (simp add: zero_results_env_def get_all_route_strategies_def get_routes_google_api_def
        remove_duplicates_def renumber_def)

text \<open>
  C7. When the geocoding service answers without the key \<open>results\<close> or with an empty list
  of results, \<open>geocode_place\<close> raises a \<open>KeyError\<close> or an \<open>IndexError\<close>, each of them a
  \<open>LookupError\<close>, and returns no coordinates.
\<close>

theorem geocode_place_no_results:
  assumes "geocode_get e \<lparr>gp_address = place, gp_key = k, gp_region = ''in''\<rparr> = Inr resp"
    and "results resp = None \<or> results resp = Some []"
  shows "\<exists>x. geocode_place e k place = Inl x \<and> is_LookupError x"
  using assms by (auto simp: geocode_place_def)

theorem geocode_place_no_results_witness:
  "\<exists>x. geocode_place zero_results_env ''key'' ''Nowhere'' = Inl x \<and> is_LookupError x"
proof -
  have "geocode_get zero_results_env \<lparr>gp_address = ''Nowhere'', gp_key = ''key'', gp_region = ''in''\<rparr>
        = Inr \<lparr>results = Some [], geocode_status = ''ZERO_RESULTS''\<rparr>"
    by (simp add: zero_results_env_def)
  moreover have "results \<lparr>results = Some [], geocode_status = ''ZERO_RESULTS''\<rparr> = None
      \<or> results \<lparr>results = Some [], geocode_status = ''ZERO_RESULTS''\<rparr> = Some []"
    by simp
  ultimately show ?thesis
    by (rule geocode_place_no_results)
qed

section \<open>Travel mode\<close>

lemma getattr_TravelMode_member: "getattr_TravelMode (mode_value m) dflt = m"
  by (cases m) (simp_all add: getattr_TravelMode_def TravelMode_members_def)

lemma getattr_TravelMode_other:
  "name \<notin> {''DRIVE'', ''WALK'', ''BICYCLE'', ''TRANSIT'', ''TWO_WHEELER''} \<Longrightarrow>
     getattr_TravelMode name dflt = dflt"
  by (simp add: getattr_TravelMode_def TravelMode_members_def)

lemma plan_trip_with_routes_no_key:
  "API_KEY e = None \<or> API_KEY e = Some [] \<Longrightarrow>
     plan_trip_with_routes e start_place end_place travel_mode w
       = (Inl (PyException ''Google API key missing in .env''), w)"
  by (auto simp: plan_trip_with_routes_def)

lemma plan_trip_with_routes_map:
  assumes "API_KEY e = Some k" and "k \<noteq> []" and "gmaps_Client e k = Inr u"
    and "geocode_place e k start_place = Inr (origin_dict, origin_coords, start_fmt)"
    and "geocode_place e k end_place = Inr (dest_dict, dest_coords, end_fmt)"
    and "get_all_route_strategies e k start_fmt end_fmt
           (getattr_TravelMode (str_upper e travel_mode) DRIVE) = Inr numbered"
  shows "plan_trip_with_routes e start_place end_place travel_mode w =
     (case create_comprehensive_map e origin_coords dest_coords
             (process_routes_with_fares numbered (getattr_TravelMode (str_upper e travel_mode) DRIVE))
             start_fmt end_fmt of
        Inl x \<Rightarrow> (Inl x, w)
      | Inr route_map \<Rightarrow>
          (Inr \<lparr>map_file = ''routes_map.html'', data_file = ''route_data.json'',
                routes_found = length numbered\<rparr>,
           w\<lparr>files := (files w)
                (''routes_map.html'' \<mapsto> HtmlFile route_map,
                 ''route_data.json'' \<mapsto> JsonFile
                    \<lparr>trip = \<lparr>trip_start = start_fmt, trip_end = end_fmt,
                             trip_mode = mode_value
                               (getattr_TravelMode (str_upper e travel_mode) DRIVE),
                             generated_at = now_isoformat e\<rparr>,
                     routes = map (\<lambda>r. r\<lparr>polyline := None\<rparr>)
                                (process_routes_with_fares numbered
                                   (getattr_TravelMode (str_upper e travel_mode) DRIVE))\<rparr>)\<rparr>))"
  using assms
  by (simp add: plan_trip_with_routes_def save_routes_data_def Let_def
        process_routes_with_fares_def split: sum.splits)

text \<open>
  C8. Let \<open>m\<close> be the value of \<open>getattr(TravelMode, travel_mode.upper(), TravelMode.DRIVE)\<close>.
  When the upper-cased travel mode is none of the five member names, \<open>m\<close> is DRIVE; when it
  is the name of a member, \<open>m\<close> is that member. The planner works with \<open>m\<close>: when it
  returns, the routes were fetched and priced for \<open>m\<close> and the stored trip has the mode
  \<open>m\<close>; when it raises, the exception is the missing API key or was raised by the client
  check, by geocoding, by the fetch for \<open>m\<close> or by the map, and never by the travel mode.
\<close>

theorem travel_mode_resolution:
  assumes m: "m = getattr_TravelMode (str_upper e travel_mode) DRIVE"
  shows
  "(str_upper e travel_mode \<notin> {''DRIVE'', ''WALK'', ''BICYCLE'', ''TRANSIT'', ''TWO_WHEELER''}
      \<longrightarrow> m = DRIVE)
   \<and> (\<forall>member. str_upper e travel_mode = mode_value member \<longrightarrow> m = member)
   \<and> (\<forall>res w'. plan_trip_with_routes e start_place end_place travel_mode w = (Inr res, w') \<longrightarrow>
        (\<exists>k origin_dict origin_coords start_fmt dest_dict dest_coords end_fmt numbered route_map.
           API_KEY e = Some k
           \<and> geocode_place e k start_place = Inr (origin_dict, origin_coords, start_fmt)
           \<and> geocode_place e k end_place = Inr (dest_dict, dest_coords, end_fmt)
           \<and> get_all_route_strategies e k start_fmt end_fmt m = Inr numbered
           \<and> create_comprehensive_map e origin_coords dest_coords
                (process_routes_with_fares numbered m) start_fmt end_fmt = Inr route_map
           \<and> routes_found res = length numbered
           \<and> files w' (map_file res) = Some (HtmlFile route_map)
           \<and> files w' (data_file res) = Some (JsonFile
                \<lparr>trip = \<lparr>trip_start = start_fmt, trip_end = end_fmt, trip_mode = mode_value m,
                         generated_at = now_isoformat e\<rparr>,
                 routes = map (\<lambda>r. r\<lparr>polyline := None\<rparr>)
                            (process_routes_with_fares numbered m)\<rparr>)))
   \<and> (\<forall>x w'. plan_trip_with_routes e start_place end_place travel_mode w = (Inl x, w') \<longrightarrow>
        w' = w
        \<and> (x = PyException ''Google API key missing in .env''
              \<and> (API_KEY e = None \<or> API_KEY e = Some [])
            \<or> (\<exists>k. API_KEY e = Some k
                  \<and> (gmaps_Client e k = Inl x
                      \<or> geocode_place e k start_place = Inl x
                      \<or> geocode_place e k end_place = Inl x
                      \<or> (\<exists>origin_dict origin_coords start_fmt dest_dict dest_coords end_fmt.
                            geocode_place e k start_place = Inr (origin_dict, origin_coords, start_fmt)
                            \<and> geocode_place e k end_place = Inr (dest_dict, dest_coords, end_fmt)
                            \<and> (get_all_route_strategies e k start_fmt end_fmt m = Inl x
                                \<or> (\<exists>numbered.
                                      get_all_route_strategies e k start_fmt end_fmt m = Inr numbered
                                      \<and> create_comprehensive_map e origin_coords dest_coords
                                           (process_routes_with_fares numbered m) start_fmt end_fmt
                                         = Inl x)))))))"
proof (intro conjI allI impI)
  assume "str_upper e travel_mode \<notin> {''DRIVE'', ''WALK'', ''BICYCLE'', ''TRANSIT'', ''TWO_WHEELER''}"
  then show "m = DRIVE"
    unfolding m by (rule getattr_TravelMode_other)
next
  fix member
  assume "str_upper e travel_mode = mode_value member"
  then show "m = member"
    unfolding m by (simp add: getattr_TravelMode_member)
next
  fix res w'
  assume ok: "plan_trip_with_routes e start_place end_place travel_mode w = (Inr res, w')"
  show "\<exists>k origin_dict origin_coords start_fmt dest_dict dest_coords end_fmt numbered route_map.
           API_KEY e = Some k
           \<and> geocode_place e k start_place = Inr (origin_dict, origin_coords, start_fmt)
           \<and> geocode_place e k end_place = Inr (dest_dict, dest_coords, end_fmt)
           \<and> get_all_route_strategies e k start_fmt end_fmt m = Inr numbered
           \<and> create_comprehensive_map e origin_coords dest_coords
                (process_routes_with_fares numbered m) start_fmt end_fmt = Inr route_map
           \<and> routes_found res = length numbered
           \<and> files w' (map_file res) = Some (HtmlFile route_map)
           \<and> files w' (data_file res) = Some (JsonFile
                \<lparr>trip = \<lparr>trip_start = start_fmt, trip_end = end_fmt, trip_mode = mode_value m,
                         generated_at = now_isoformat e\<rparr>,
                 routes = map (\<lambda>r. r\<lparr>polyline := None\<rparr>)
                            (process_routes_with_fares numbered m)\<rparr>)"
  proof (cases "API_KEY e = None \<or> API_KEY e = Some []")
    case True
    then show ?thesis
      using ok plan_trip_with_routes_no_key [OF True] by simp
  next
    case False
    then obtain k where k: "API_KEY e = Some k" "k \<noteq> []"
      by auto
    from ok k obtain u where u: "gmaps_Client e k = Inr u"
      unfolding plan_trip_with_routes_def by (auto split: sum.splits)
    from ok k u obtain od oc sf where g1: "geocode_place e k start_place = Inr (od, oc, sf)"
      unfolding plan_trip_with_routes_def Let_def by (auto split: sum.splits)
    from ok k u g1 obtain dd dc ef where g2: "geocode_place e k end_place = Inr (dd, dc, ef)"
      unfolding plan_trip_with_routes_def Let_def by (auto split: sum.splits)
    from ok k u g1 g2 obtain numbered where
      rs: "get_all_route_strategies e k sf ef m = Inr numbered"
      unfolding plan_trip_with_routes_def Let_def m by (auto split: sum.splits)
    note eq = plan_trip_with_routes_map [OF k u g1 g2 rs [unfolded m], of w, folded m]
    from ok obtain route_map where
      mp: "create_comprehensive_map e oc dc (process_routes_with_fares numbered m) sf ef
             = Inr route_map"
      unfolding eq by (auto split: sum.splits)
    from ok have "res = \<lparr>map_file = ''routes_map.html'', data_file = ''route_data.json'',
                routes_found = length numbered\<rparr>"
      and "w' = w\<lparr>files := (files w)
                (''routes_map.html'' \<mapsto> HtmlFile route_map,
                 ''route_data.json'' \<mapsto> JsonFile
                    \<lparr>trip = \<lparr>trip_start = sf, trip_end = ef, trip_mode = mode_value m,
                             generated_at = now_isoformat e\<rparr>,
                     routes = map (\<lambda>r. r\<lparr>polyline := None\<rparr>)
                                (process_routes_with_fares numbered m)\<rparr>)\<rparr>"
      unfolding eq mp by simp_all
    then have "routes_found res = length numbered"
      and "files w' (map_file res) = Some (HtmlFile route_map)"
      and "files w' (data_file res) = Some (JsonFile
                \<lparr>trip = \<lparr>trip_start = sf, trip_end = ef, trip_mode = mode_value m,
                         generated_at = now_isoformat e\<rparr>,
                 routes = map (\<lambda>r. r\<lparr>polyline := None\<rparr>)
                            (process_routes_with_fares numbered m)\<rparr>)"
      by simp_all
    with k(1) g1 g2 rs mp show ?thesis
      by blast
  qed
next
  fix x w'
  assume bad: "plan_trip_with_routes e start_place end_place travel_mode w = (Inl x, w')"
  show "w' = w"
    using bad unfolding plan_trip_with_routes_def save_routes_data_def Let_def
    by (auto split: option.splits sum.splits if_splits prod.splits)
  show "x = PyException ''Google API key missing in .env''
              \<and> (API_KEY e = None \<or> API_KEY e = Some [])
            \<or> (\<exists>k. API_KEY e = Some k
                  \<and> (gmaps_Client e k = Inl x
                      \<or> geocode_place e k start_place = Inl x
                      \<or> geocode_place e k end_place = Inl x
                      \<or> (\<exists>origin_dict origin_coords start_fmt dest_dict dest_coords end_fmt.
                            geocode_place e k start_place = Inr (origin_dict, origin_coords, start_fmt)
                            \<and> geocode_place e k end_place = Inr (dest_dict, dest_coords, end_fmt)
                            \<and> (get_all_route_strategies e k start_fmt end_fmt m = Inl x
                                \<or> (\<exists>numbered.
                                      get_all_route_strategies e k start_fmt end_fmt m = Inr numbered
                                      \<and> create_comprehensive_map e origin_coords dest_coords
                                           (process_routes_with_fares numbered m) start_fmt end_fmt
                                         = Inl x)))))"
  proof (cases "API_KEY e = None \<or> API_KEY e = Some []")
    case True
    then show ?thesis
      using bad plan_trip_with_routes_no_key [OF True] by simp
  next
    case False
    then obtain k where k: "API_KEY e = Some k" "k \<noteq> []"
      by auto
    show ?thesis
    proof (cases "gmaps_Client e k")
      case (Inl y)
      then have "x = y"
        using bad k unfolding plan_trip_with_routes_def by simp
      then show ?thesis using k Inl by simp
    next
      case u: (Inr u)
      show ?thesis
      proof (cases "geocode_place e k start_place")
        case (Inl y)
        then have "x = y"
          using bad k u unfolding plan_trip_with_routes_def Let_def by simp
        then show ?thesis using k Inl by simp
      next
        case (Inr a)
        then obtain od oc sf where g1: "geocode_place e k start_place = Inr (od, oc, sf)"
          by (cases a) auto
        show ?thesis
        proof (cases "geocode_place e k end_place")
          case (Inl y)
          then have "x = y"
            using bad k u g1 unfolding plan_trip_with_routes_def Let_def by simp
          then show ?thesis using k Inl by simp
        next
          case (Inr b)
          then obtain dd dc ef where g2: "geocode_place e k end_place = Inr (dd, dc, ef)"
            by (cases b) auto
          show ?thesis
          proof (cases "get_all_route_strategies e k sf ef m")
            case (Inl y)
            then have "x = y"
              using bad k u g1 g2 unfolding plan_trip_with_routes_def Let_def m by simp
            then show ?thesis using k g1 g2 Inl by blast
          next
            case (Inr numbered)
            note eq = plan_trip_with_routes_map [OF k u g1 g2 Inr [unfolded m], of w, folded m]
            from bad have "create_comprehensive_map e oc dc
                (process_routes_with_fares numbered m) sf ef = Inl x"
              unfolding eq by (auto split: sum.splits)
            then show ?thesis using k g1 g2 Inr by blast
          qed
        qed
      qed
    qed
  qed
qed

theorem travel_mode_resolution_witness:
  "getattr_TravelMode (str_upper example_env ''hovercraft'') DRIVE = DRIVE
   \<and> getattr_TravelMode (str_upper example_env ''two_wheeler'') DRIVE = TWO_WHEELER
   \<and> (case plan_trip_with_routes example_env ''Mumbai'' ''Pune'' ''hovercraft'' empty_world of
        (Inr res, w') \<Rightarrow>
          (case files w' (data_file res) of
             Some (JsonFile doc) \<Rightarrow> trip_mode (trip doc) = ''DRIVE'' \<and> length (routes doc) = 6
           | _ \<Rightarrow> False)
      | (Inl x, w') \<Rightarrow> False)
   \<and> (case plan_trip_with_routes example_env ''Mumbai'' ''Pune'' ''walk'' empty_world of
        (Inr res, w') \<Rightarrow>
          (case files w' (data_file res) of
             Some (JsonFile doc) \<Rightarrow> trip_mode (trip doc) = ''WALK'' \<and> length (routes doc) = 2
           | _ \<Rightarrow> False)
      | (Inl x, w') \<Rightarrow> False)"
proof -
  have hover: "str_upper example_env ''hovercraft'' = ''HOVERCRAFT''"
    unfolding example_env_def by code_simp
  have two: "str_upper example_env ''two_wheeler'' = mode_value TWO_WHEELER"
    unfolding example_env_def by code_simp
  have walk: "str_upper example_env ''walk'' = mode_value WALK"
    unfolding example_env_def by code_simp
  have other: "str_upper example_env ''hovercraft''
      \<notin> {''DRIVE'', ''WALK'', ''BICYCLE'', ''TRANSIT'', ''TWO_WHEELER''}"
    unfolding hover by simp
  note hovercraft = travel_mode_resolution
    [where e = example_env and travel_mode = "''hovercraft''" and start_place = "''Mumbai''"
       and end_place = "''Pune''" and w = empty_world, OF refl]
  note walking = travel_mode_resolution
    [where e = example_env and travel_mode = "''walk''" and start_place = "''Mumbai''"
       and end_place = "''Pune''" and w = empty_world, OF refl]
  note wheels = travel_mode_resolution
    [where e = example_env and travel_mode = "''two_wheeler''", OF refl]
  have m1: "getattr_TravelMode (str_upper example_env ''hovercraft'') DRIVE = DRIVE"
    using hovercraft other by blast
  have m2: "getattr_TravelMode (str_upper example_env ''two_wheeler'') DRIVE = TWO_WHEELER"
    using wheels two by blast
  have m3: "getattr_TravelMode (str_upper example_env ''walk'') DRIVE = WALK"
    using walking walk by blast
  have "case plan_trip_with_routes example_env ''Mumbai'' ''Pune'' ''hovercraft'' empty_world of
          (Inr res, w') \<Rightarrow> routes_found res = 6 | (Inl x, w') \<Rightarrow> False"
    unfolding plan_trip_with_routes_def m1
    by (simp add: geocode_place_def create_comprehensive_map_def
          process_routes_with_fares_def enumerate_eq_zip upt_conv_Cons
          get_all_route_strategies_def get_routes_google_api_def example_env_def
          example_api_route_def remove_duplicates_def remove_duplicates_loop_Cons route_key_def
          renumber_def save_routes_data_def Let_def)
  then obtain res1 w1 where
    p1: "plan_trip_with_routes example_env ''Mumbai'' ''Pune'' ''hovercraft'' empty_world
           = (Inr res1, w1)"
    and n1: "routes_found res1 = 6"
    by (auto split: sum.splits prod.splits)
  have "case plan_trip_with_routes example_env ''Mumbai'' ''Pune'' ''walk'' empty_world of
          (Inr res, w') \<Rightarrow> routes_found res = 2 | (Inl x, w') \<Rightarrow> False"
    unfolding plan_trip_with_routes_def m3
    by (simp add: geocode_place_def create_comprehensive_map_def
          process_routes_with_fares_def enumerate_eq_zip upt_conv_Cons
          get_all_route_strategies_def get_routes_google_api_def example_env_def
          example_api_route_def remove_duplicates_def remove_duplicates_loop_Cons route_key_def
          renumber_def save_routes_data_def Let_def)
  then obtain res2 w2 where
    p2: "plan_trip_with_routes example_env ''Mumbai'' ''Pune'' ''walk'' empty_world
           = (Inr res2, w2)"
    and n2: "routes_found res2 = 2"
    by (auto split: sum.splits prod.splits)
  from hovercraft p1 obtain doc1 where
    "files w1 (data_file res1) = Some (JsonFile doc1)"
    "trip_mode (trip doc1) = mode_value (getattr_TravelMode (str_upper example_env ''hovercraft'') DRIVE)"
    "length (routes doc1) = routes_found res1"
    by (fastforce simp: process_routes_with_fares_def)
  moreover from walking p2 obtain doc2 where
    "files w2 (data_file res2) = Some (JsonFile doc2)"
    "trip_mode (trip doc2) = mode_value (getattr_TravelMode (str_upper example_env ''walk'') DRIVE)"
    "length (routes doc2) = routes_found res2"
    by (fastforce simp: process_routes_with_fares_def)
  ultimately show ?thesis
    using m1 m2 m3 p1 p2 n1 n2 by simp
qed

section \<open>The travel guide\<close>

lemma fares_other_modes:
  "mode \<noteq> DRIVE \<Longrightarrow> mode \<noteq> TWO_WHEELER \<Longrightarrow> fares (get_comprehensive_fares d mode) = []"
  by (simp add: get_comprehensive_fares_def Let_def)

lemma generate_travel_insights_pdf_no_route:
  "files w json_file_path = Some (JsonFile doc) \<Longrightarrow> routes doc = [] \<Longrightarrow>
     generate_travel_insights_pdf e json_file_path output_pdf w = (Inl IndexError, w)"
  by (simp add: generate_travel_insights_pdf_def)

lemma generate_travel_insights_pdf_no_fare:
  "files w json_file_path = Some (JsonFile doc) \<Longrightarrow> routes doc = r # rest \<Longrightarrow>
   fare_info r = Some fi \<Longrightarrow> fares fi = [] \<Longrightarrow>
     generate_travel_insights_pdf e json_file_path output_pdf w = (Inl IndexError, w)"
  by (simp add: generate_travel_insights_pdf_def)

text \<open>
  C10. When the route data file has no route, or its first route has an empty fares mapping,
  \<open>generate_travel_insights_pdf\<close> raises an \<open>IndexError\<close> and leaves the files and the
  requests to the text-generation service as they were. The file written by a successful
  \<open>plan_trip_with_routes\<close> for a mode other than DRIVE and TWO_WHEELER is such a file.
\<close>

theorem generate_travel_insights_pdf_needs_fare:
  "(files w json_file_path = Some (JsonFile doc)
      \<and> (routes doc = []
          \<or> (\<exists>r rest fi. routes doc = r # rest \<and> fare_info r = Some fi \<and> fares fi = []))
      \<longrightarrow> generate_travel_insights_pdf e json_file_path output_pdf w = (Inl IndexError, w))
   \<and> (plan_trip_with_routes e start_place end_place travel_mode w0 = (Inr res, w)
        \<and> getattr_TravelMode (str_upper e travel_mode) DRIVE \<notin> {DRIVE, TWO_WHEELER}
      \<longrightarrow> generate_travel_insights_pdf e (data_file res) output_pdf w = (Inl IndexError, w))"
proof (intro conjI impI)
  assume "files w json_file_path = Some (JsonFile doc)
      \<and> (routes doc = []
          \<or> (\<exists>r rest fi. routes doc = r # rest \<and> fare_info r = Some fi \<and> fares fi = []))"
  then show "generate_travel_insights_pdf e json_file_path output_pdf w = (Inl IndexError, w)"
    using generate_travel_insights_pdf_no_route generate_travel_insights_pdf_no_fare by blast
next
  let ?m = "getattr_TravelMode (str_upper e travel_mode) DRIVE"
  assume a: "plan_trip_with_routes e start_place end_place travel_mode w0 = (Inr res, w)
        \<and> ?m \<notin> {DRIVE, TWO_WHEELER}"
  then have mode: "?m \<noteq> DRIVE" "?m \<noteq> TWO_WHEELER"
    by simp_all
  from a plan_trip_with_routes_Inr [of e start_place end_place travel_mode w0 res w]
  obtain ti numbered where
    name: "data_file res = ''route_data.json''"
    and stored: "files w ''route_data.json'' = Some (JsonFile
                 \<lparr>trip = ti,
                  routes = map (\<lambda>r. r\<lparr>polyline := None\<rparr>)
                             (process_routes_with_fares numbered ?m)\<rparr>)"
    by fastforce
  show "generate_travel_insights_pdf e (data_file res) output_pdf w = (Inl IndexError, w)"
  proof (cases numbered)
    case Nil
    show ?thesis
      unfolding name
      by (rule generate_travel_insights_pdf_no_route [OF stored])
        (simp add: Nil process_routes_with_fares_def)
  next
    case (Cons r rest)
    let ?r = "r\<lparr>fare_info := Some (get_comprehensive_fares (distance r) ?m), polyline := None\<rparr>"
    have first: "routes \<lparr>trip = ti,
                  routes = map (\<lambda>r. r\<lparr>polyline := None\<rparr>)
                             (process_routes_with_fares numbered ?m)\<rparr>
          = ?r # map (\<lambda>r. r\<lparr>polyline := None\<rparr>) (process_routes_with_fares rest ?m)"
      by (simp add: Cons process_routes_with_fares_def)
    have info: "fare_info ?r = Some (get_comprehensive_fares (distance r) ?m)"
      by simp
    have none: "fares (get_comprehensive_fares (distance r) ?m) = []"
      using mode by (rule fares_other_modes)
    show ?thesis
      unfolding name
      by (rule generate_travel_insights_pdf_no_fare [OF stored first info none])
  qed
qed

theorem generate_travel_insights_pdf_needs_fare_witness:
  "generate_travel_insights_pdf example_env ''route_data.json'' ''guide.pdf''
     (empty_world\<lparr>files := [''route_data.json'' \<mapsto> JsonFile
         \<lparr>trip = \<lparr>trip_start = ''Mumbai'', trip_end = ''Pune'', trip_mode = ''DRIVE'',
                  generated_at = ''2024-01-01T00:00:00''\<rparr>,
          routes = []\<rparr>]\<rparr>)
     = (Inl IndexError,
        empty_world\<lparr>files := [''route_data.json'' \<mapsto> JsonFile
         \<lparr>trip = \<lparr>trip_start = ''Mumbai'', trip_end = ''Pune'', trip_mode = ''DRIVE'',
                  generated_at = ''2024-01-01T00:00:00''\<rparr>,
          routes = []\<rparr>]\<rparr>)
   \<and> (case plan_trip_with_routes example_env ''Mumbai'' ''Pune'' ''walk'' empty_world of
        (Inr res, w) \<Rightarrow>
          routes_found res = 2
          \<and> generate_travel_insights_pdf example_env (data_file res) ''guide.pdf'' w
              = (Inl IndexError, w)
      | (Inl x, w) \<Rightarrow> False)"
proof -
  let ?doc = "\<lparr>trip = \<lparr>trip_start = ''Mumbai'', trip_end = ''Pune'', trip_mode = ''DRIVE'',
                  generated_at = ''2024-01-01T00:00:00''\<rparr>,
          routes = []\<rparr>"
  let ?w = "empty_world\<lparr>files := [''route_data.json'' \<mapsto> JsonFile ?doc]\<rparr>"
  have "files ?w ''route_data.json'' = Some (JsonFile ?doc) \<and> (routes ?doc = []
          \<or> (\<exists>r rest fi. routes ?doc = r # rest \<and> fare_info r = Some fi \<and> fares fi = []))"
    by simp
  then have first: "generate_travel_insights_pdf example_env ''route_data.json'' ''guide.pdf'' ?w
      = (Inl IndexError, ?w)"
    by (rule conjunct1 [OF generate_travel_insights_pdf_needs_fare, rule_format])
  have walk: "str_upper example_env ''walk'' = ''WALK''"
    unfolding example_env_def by code_simp
  have mode: "getattr_TravelMode (str_upper example_env ''walk'') DRIVE \<notin> {DRIVE, TWO_WHEELER}"
    unfolding walk by (simp add: getattr_TravelMode_def TravelMode_members_def)
  have "case plan_trip_with_routes example_env ''Mumbai'' ''Pune'' ''walk'' empty_world of
          (Inr res, w) \<Rightarrow> routes_found res = 2 | (Inl x, w) \<Rightarrow> False"
    unfolding plan_trip_with_routes_def walk
    by (simp add: geocode_place_def
          getattr_TravelMode_def TravelMode_members_def create_comprehensive_map_def
          process_routes_with_fares_def enumerate_eq_zip upt_conv_Cons
          get_all_route_strategies_def get_routes_google_api_def example_env_def
          example_api_route_def remove_duplicates_def remove_duplicates_loop_Cons route_key_def
          renumber_def save_routes_data_def Let_def)
  then obtain res w where
    plan: "plan_trip_with_routes example_env ''Mumbai'' ''Pune'' ''walk'' empty_world = (Inr res, w)"
    and found: "routes_found res = 2"
    by (auto split: sum.splits prod.splits)
  have "generate_travel_insights_pdf example_env (data_file res) ''guide.pdf'' w
          = (Inl IndexError, w)"
    using plan mode
    by (intro conjunct2 [OF generate_travel_insights_pdf_needs_fare, rule_format]) simp
  then show ?thesis
    using first plan found by simp
qed

section \<open>The route data file\<close>

subsection \<open>Escapes of a string\<close>

lemma unhex_hex_digit: "d < 16 \<Longrightarrow> unhex (hex_digit d) = Some d"
proof -
  assume "d < 16"
  then have d: "d \<in> set [0..<16]"
    by simp
  have "\<forall>d \<in> set [0..<16]. unhex (hex_digit d) = Some d"
    by code_simp
  then show ?thesis
    using d by blast
qed

lemma hex_sum: "n < 65536 \<Longrightarrow>
  n div 4096 mod 16 * 4096 + n div 256 mod 16 * 256 + n div 16 mod 16 * 16 + n mod 16 = (n::nat)"
proof -
  assume "n < 65536"
  then have a: "n div 4096 mod 16 = n div 4096"
    by simp
  have "n div 4096 = n div 256 div 16"
    using div_mult2_eq [of n 256 16] by simp
  then have b: "n div 256 = n div 4096 * 16 + n div 256 mod 16"
    by simp
  have "n div 256 = n div 16 div 16"
    using div_mult2_eq [of n 16 16] by simp
  then have c: "n div 16 = n div 256 * 16 + n div 16 mod 16"
    by simp
  have d: "n = n div 16 * 16 + n mod 16"
    by simp
  show ?thesis
    using a b c d by linarith
qed

lemma unhex4_hex4: "n < 65536 \<Longrightarrow> unhex4 (hex4 n) = Some n"
  using hex_sum [of n] by (simp add: hex4_def unhex_hex_digit)

lemma length_hex4 [simp]: "length (hex4 n) = 4"
  by (simp add: hex4_def)

lemma prepend_Some [simp]: "prepend cs (Some (x, r)) = Some (cs @ x, r)"
  by (simp add: prepend_def)

lemma prepend_prepend: "prepend a (prepend b r) = prepend (a @ b) r"
  by (cases r) (auto simp: prepend_def)

lemma scanstring_quote [simp]: "scanstring (CHR 0x22 # rest) = Some ([], rest)"
  by (simp add: scanstring.simps)

lemma scanstring_u:
  assumes "cp < 55296 \<or> (56319 < cp \<and> cp < 65536)"
  shows "scanstring (u_escape cp @ t) = prepend (utf8_of cp) (scanstring t)"
proof -
  have "unhex4 (hex4 cp) = Some cp"
    using assms by (intro unhex4_hex4) auto
  then show ?thesis
    using assms by (auto simp: u_escape_def scanstring.simps)
qed

lemma scanstring_surrogates:
  assumes "55296 \<le> hi" "hi \<le> 56319" "56320 \<le> lo" "lo \<le> 57343"
  shows "scanstring (u_escape hi @ u_escape lo @ t)
           = prepend (utf8_of (65536 + (hi - 55296) * 1024 + (lo - 56320))) (scanstring t)"
proof -
  have "unhex4 (hex4 hi) = Some hi" "unhex4 (hex4 lo) = Some lo"
    using assms by (auto intro!: unhex4_hex4)
  then show ?thesis
    using assms by (simp add: u_escape_def scanstring.simps)
qed

lemma scanstring_plain:
  assumes "c \<noteq> CHR 0x22" "c \<noteq> CHR 0x5C" "32 \<le> (of_char c :: nat)"
  shows "scanstring (c # t) = prepend [c] (scanstring t)"
  using assms by (simp add: scanstring.simps)

lemma scanstring_simple:
  assumes "simple_escape e = Some ch" "e \<noteq> CHR ''u''"
  shows "scanstring (CHR 0x5C # e # t) = prepend [ch] (scanstring t)"
  using assms by (simp add: scanstring.simps)

lemma scanstring_escape_ascii:
  assumes "(of_char c :: nat) < 128"
  shows "scanstring (escape_ascii c @ t) = prepend [c] (scanstring t)"
proof -
  consider (quote) "c = CHR 0x22" | (backslash) "c = CHR 0x5C" | (n) "c = CHR 0x0A"
    | (r) "c = CHR 0x0D" | (t) "c = CHR 0x09" | (b) "c = CHR 0x08" | (f) "c = CHR 0x0C"
    | (control) "c \<noteq> CHR 0x22" "c \<noteq> CHR 0x5C" "c \<noteq> CHR 0x0A" "c \<noteq> CHR 0x0D" "c \<noteq> CHR 0x09"
        "c \<noteq> CHR 0x08" "c \<noteq> CHR 0x0C" "(of_char c :: nat) < 32 \<or> (of_char c :: nat) = 127"
    | (plain) "c \<noteq> CHR 0x22" "c \<noteq> CHR 0x5C" "32 \<le> (of_char c :: nat)" "(of_char c :: nat) \<noteq> 127"
    by fastforce
  then show ?thesis
  proof cases
    case quote
    then show ?thesis
      by (simp add: escape_ascii_def scanstring_simple simple_escape_def)
  next
    case backslash
    then show ?thesis
      by (simp add: escape_ascii_def scanstring_simple simple_escape_def)
  next
    case n
    then show ?thesis
      by (simp add: escape_ascii_def scanstring_simple simple_escape_def)
  next
    case r
    then show ?thesis
      by (simp add: escape_ascii_def scanstring_simple simple_escape_def)
  next
    case t
    then show ?thesis
      by (simp add: escape_ascii_def scanstring_simple simple_escape_def)
  next
    case b
    then show ?thesis
      by (simp add: escape_ascii_def scanstring_simple simple_escape_def)
  next
    case f
    then show ?thesis
      by (simp add: escape_ascii_def scanstring_simple simple_escape_def)
  next
    case control
    have "escape_ascii c = u_escape (of_char c)"
      using control by (simp add: escape_ascii_def)
    moreover have "utf8_of (of_char c) = [c]"
      using assms by (simp add: utf8_of_def)
    ultimately show ?thesis
      using assms scanstring_u [of "of_char c" t] by simp
  next
    case plain
    then have "escape_ascii c = [c]"
      by (auto simp: escape_ascii_def)
    then show ?thesis
      using plain by (simp add: scanstring_plain)
  qed
qed

lemma utf8_of_two:
  assumes "2 \<le> a" "a < 32" "b < 64"
  shows "utf8_of (a * 64 + b) = [char_of (192 + a), char_of (128 + b)]"
proof -
  have "128 \<le> a * 64 + b" "a * 64 + b < 2048"
    using assms by linarith+
  moreover have "(a * 64 + b) div 64 = a" "(a * 64 + b) mod 64 = b"
    using assms by simp_all
  ultimately show ?thesis
    by (simp add: utf8_of_def)
qed

lemma utf8_of_three:
  assumes "a < 16" "b < 64" "c < 64" "2048 \<le> a * 4096 + b * 64 + c"
  shows "utf8_of (a * 4096 + b * 64 + c) = [char_of (224 + a), char_of (128 + b), char_of (128 + c)]"
proof -
  have small: "b * 64 + c < 4096"
    using assms by linarith
  have "a * 4096 + b * 64 + c < 65536"
    using assms by linarith
  moreover have "(a * 4096 + b * 64 + c) div 4096 = a"
    using small div_mult_self3 [of 4096 "b * 64 + c" a] by (simp add: add.assoc)
  moreover have "(a * 4096 + b * 64 + c) div 64 = a * 64 + b"
    using assms div_mult_self3 [of 64 c "a * 64 + b"] by (simp add: algebra_simps)
  moreover have "(a * 64 + b) mod 64 = b"
    using assms by simp
  moreover have "(a * 4096 + b * 64 + c) mod 64 = c"
    using assms mod_mult_self3 [of "a * 64 + b" 64 c] by (simp add: algebra_simps)
  ultimately show ?thesis
    using assms by (simp add: utf8_of_def)
qed

lemma utf8_of_four:
  assumes "a < 8" "b < 64" "c < 64" "d < 64" "65536 \<le> a * 262144 + b * 4096 + c * 64 + d"
  shows "utf8_of (a * 262144 + b * 4096 + c * 64 + d)
           = [char_of (240 + a), char_of (128 + b), char_of (128 + c), char_of (128 + d)]"
proof -
  let ?cp = "a * 262144 + b * 4096 + c * 64 + d"
  have "?cp div 262144 = a"
    using assms div_mult_self3 [of 262144 "b * 4096 + c * 64 + d" a] by (simp add: add.assoc)
  moreover have "?cp div 4096 = a * 64 + b"
    using assms div_mult_self3 [of 4096 "c * 64 + d" "a * 64 + b"] by (simp add: algebra_simps)
  moreover have "?cp div 64 = a * 4096 + b * 64 + c"
    using assms div_mult_self3 [of 64 d "a * 4096 + b * 64 + c"] by (simp add: algebra_simps)
  moreover have "(a * 64 + b) mod 64 = b" "(a * 4096 + b * 64 + c) mod 64 = c"
    using assms mod_mult_self3 [of "a * 64 + b" 64 c] by (simp_all add: algebra_simps)
  moreover have "?cp mod 64 = d"
    using assms mod_mult_self3 [of "a * 4096 + b * 64 + c" 64 d] by (simp add: algebra_simps)
  ultimately show ?thesis
    using assms by (simp add: utf8_of_def)
qed

lemma surrogates_of:
  assumes "v < 1048576"
  shows "55296 \<le> 55296 + v div 1024" "55296 + v div 1024 \<le> 56319"
    "56320 \<le> 56320 + v mod 1024" "56320 + v mod 1024 \<le> 57343"
    "65536 + (55296 + v div 1024 - 55296) * 1024 + (56320 + v mod 1024 - 56320) = 65536 + (v::nat)"
  using assms by simp_all

lemma scanstring_escape:
  "utf8 s \<Longrightarrow> scanstring (escape s @ CHR 0x22 # rest) = Some (s, rest)"
proof (induction s rule: measure_induct_rule [of length])
  case (less s)
  show ?case
  proof (cases s)
    case Nil
    then show ?thesis by simp
  next
    case (Cons c s1)
    define n :: nat where "n = of_char c"
    from less.prems Cons
    consider (ascii) "n < 128" | (two) "194 \<le> n" "n < 224" | (three) "224 \<le> n" "n < 240"
      | (four) "240 \<le> n" "n < 245"
      unfolding n_def by (auto simp: Let_def split: if_splits)
    then show ?thesis
    proof cases
      case ascii
      then have "utf8 s1"
        using less.prems Cons by (simp add: n_def)
      then have "scanstring (escape s1 @ CHR 0x22 # rest) = Some (s1, rest)"
        using less.IH [of s1] Cons by simp
      moreover have "escape s = escape_ascii c @ escape s1"
        using ascii Cons by (simp add: n_def)
      ultimately show ?thesis
        using ascii Cons scanstring_escape_ascii [of c "escape s1 @ CHR 0x22 # rest"]
        by (simp add: n_def)
    next
      case two
      from less.prems Cons two obtain c2 s2 where s1: "s1 = c2 # s2"
        and c2: "continuation c2" and rest_ok: "utf8 s2"
        unfolding n_def by (cases s1) (auto simp: Let_def)
      define b :: nat where "b = of_char c2 - 128"
      have b: "b < 64" "of_char c2 = 128 + b"
        using c2 by (auto simp: continuation_def b_def)
      define a where "a = n - 192"
      have a: "2 \<le> a" "a < 32" "n = 192 + a"
        using two by (auto simp: a_def)
      have ih: "scanstring (escape s2 @ CHR 0x22 # rest) = Some (s2, rest)"
        using less.IH [of s2] rest_ok Cons s1 by simp
      have esc: "escape s = u_escape (a * 64 + b) @ escape s2"
        using two Cons s1 by (simp add: n_def [symmetric] a_def b_def)
      have bytes: "utf8_of (a * 64 + b) = [c, c2]"
        using utf8_of_two [OF a(1,2) b(1)] a(3) b(2)
        by (metis char_of_char n_def)
      have "a * 64 + b < 55296"
        using a b by linarith
      then show ?thesis
        unfolding esc using scanstring_u [of "a * 64 + b" "escape s2 @ CHR 0x22 # rest"] ih bytes
        by (simp add: Cons s1)
    next
      case three
      from less.prems Cons three obtain c2 c3 s2 where s1: "s1 = c2 # c3 # s2"
        and c2: "continuation c2" and c3: "continuation c3" and rest_ok: "utf8 s2"
        and low: "2048 \<le> (n - 224) * 4096 + (of_char c2 - 128) * 64 + (of_char c3 - 128)"
        and sur: "\<not> (55296 \<le> (n - 224) * 4096 + (of_char c2 - 128) * 64 + (of_char c3 - 128)
                 \<and> (n - 224) * 4096 + (of_char c2 - 128) * 64 + (of_char c3 - 128) \<le> 57343)"
        unfolding n_def
        by (cases s1; cases "tl s1") (auto simp: Let_def)
      define a where "a = n - 224"
      define b :: nat where "b = of_char c2 - 128"
      define d :: nat where "d = of_char c3 - 128"
      have a: "a < 16" "n = 224 + a"
        using three by (auto simp: a_def)
      have b: "b < 64" "of_char c2 = 128 + b"
        using c2 by (auto simp: continuation_def b_def)
      have d: "d < 64" "of_char c3 = 128 + d"
        using c3 by (auto simp: continuation_def d_def)
      let ?cp = "a * 4096 + b * 64 + d"
      have ih: "scanstring (escape s2 @ CHR 0x22 # rest) = Some (s2, rest)"
        using less.IH [of s2] rest_ok Cons s1 by simp
      have esc: "escape s = u_escape ?cp @ escape s2"
        using three Cons s1 by (simp add: n_def [symmetric] a_def b_def d_def)
      have low': "2048 \<le> ?cp"
        using low by (simp add: a_def b_def d_def)
      have bytes: "utf8_of ?cp = [c, c2, c3]"
        using utf8_of_three [OF a(1) b(1) d(1) low'] a(2) b(2) d(2)
        by (metis char_of_char n_def)
      have "?cp < 65536"
        using a b d by linarith
      then have "?cp < 55296 \<or> (56319 < ?cp \<and> ?cp < 65536)"
        using sur by (simp add: a_def b_def d_def) linarith
      then show ?thesis
        unfolding esc using scanstring_u [of ?cp "escape s2 @ CHR 0x22 # rest"] ih bytes
        by (simp add: Cons s1)
    next
      case four
      from less.prems Cons four obtain c2 c3 c4 s2 where s1: "s1 = c2 # c3 # c4 # s2"
        and c2: "continuation c2" and c3: "continuation c3" and c4: "continuation c4"
        and rest_ok: "utf8 s2"
        and low: "65536 \<le> (n - 240) * 262144 + (of_char c2 - 128) * 4096
                              + (of_char c3 - 128) * 64 + (of_char c4 - 128)"
        and high: "(n - 240) * 262144 + (of_char c2 - 128) * 4096
                      + (of_char c3 - 128) * 64 + (of_char c4 - 128) \<le> 1114111"
        unfolding n_def
        by (cases s1; cases "tl s1"; cases "tl (tl s1)") (auto simp: Let_def)
      define a where "a = n - 240"
      define b :: nat where "b = of_char c2 - 128"
      define d :: nat where "d = of_char c3 - 128"
      define f :: nat where "f = of_char c4 - 128"
      have a: "a < 8" "n = 240 + a"
        using four by (auto simp: a_def)
      have b: "b < 64" "of_char c2 = 128 + b"
        using c2 by (auto simp: continuation_def b_def)
      have d: "d < 64" "of_char c3 = 128 + d"
        using c3 by (auto simp: continuation_def d_def)
      have f: "f < 64" "of_char c4 = 128 + f"
        using c4 by (auto simp: continuation_def f_def)
      let ?cp = "a * 262144 + b * 4096 + d * 64 + f"
      define v where "v = ?cp - 65536"
      have low': "65536 \<le> ?cp" and high': "?cp \<le> 1114111"
        using low high by (simp_all add: a_def b_def d_def f_def)
      have v: "v < 1048576" "65536 + v = ?cp"
        using low' high' by (simp_all add: v_def)
      have ih: "scanstring (escape s2 @ CHR 0x22 # rest) = Some (s2, rest)"
        using less.IH [of s2] rest_ok Cons s1 by simp
      have esc: "escape s = u_escape (55296 + v div 1024) @ u_escape (56320 + v mod 1024) @ escape s2"
        using four Cons s1 by (simp add: n_def [symmetric] a_def b_def d_def f_def v_def Let_def)
      have bytes: "utf8_of ?cp = [c, c2, c3, c4]"
        using utf8_of_four [OF a(1) b(1) d(1) f(1) low'] a(2) b(2) d(2) f(2)
        by (metis char_of_char n_def)
      have "scanstring (u_escape (55296 + v div 1024) @ u_escape (56320 + v mod 1024)
                @ escape s2 @ CHR 0x22 # rest)
            = prepend (utf8_of (65536 + v)) (scanstring (escape s2 @ CHR 0x22 # rest))"
        using scanstring_surrogates [OF surrogates_of(1-4) [OF v(1)],
                of "escape s2 @ CHR 0x22 # rest"]
        unfolding surrogates_of(5) [OF v(1)] .
      then show ?thesis
        unfolding esc using ih bytes v(2) by (simp add: Cons s1)
    qed
  qed
qed

lemma scanstring_encode:
  "utf8 s \<Longrightarrow> scanstring (tl (encode_basestring_ascii s) @ rest) = Some (s, rest)"
  by (simp add: encode_basestring_ascii_def scanstring_escape)

subsection \<open>Numbers\<close>

lemma digit_char_of: "d < 10 \<Longrightarrow> digit (char_of (48 + (d::nat)))"
  by (simp add: digit_def)

lemma str_nat_digits: "\<forall>c \<in> set (str_nat n). digit c"
proof (induction n rule: str_nat.induct)
  case (1 n)
  show ?case
  proof (cases "n < 10")
    case True
    then show ?thesis
      by (subst str_nat.simps) (simp add: digit_char_of)
  next
    case False
    then show ?thesis
      using 1 by (subst str_nat.simps) (simp add: digit_char_of)
  qed
qed

lemma nat_of_digits_snoc: "nat_of_digits (ds @ [c]) = 10 * nat_of_digits ds + (of_char c - 48)"
  by (simp add: nat_of_digits_def)

lemma nat_of_digits_str_nat: "nat_of_digits (str_nat n) = n"
proof (induction n rule: str_nat.induct)
  case (1 n)
  show ?case
  proof (cases "n < 10")
    case True
    then show ?thesis
      by (subst str_nat.simps) (simp add: nat_of_digits_def)
  next
    case False
    then have "nat_of_digits (str_nat (n div 10)) = n div 10"
      using 1 by simp
    then show ?thesis
      using False by (subst str_nat.simps) (simp add: nat_of_digits_snoc)
  qed
qed

lemma str_nat_Cons: "\<exists>c t. str_nat n = c # t \<and> digit c \<and> (c = CHR ''0'' \<longrightarrow> n = 0 \<and> t = [])"
proof (induction n rule: str_nat.induct)
  case (1 n)
  show ?case
  proof (cases "n < 10")
    case True
    have "char_of (48 + n) = CHR ''0'' \<longrightarrow> n = 0"
    proof
      assume "char_of (48 + n) = CHR ''0''"
      then have "of_char (char_of (48 + n) :: char) = (of_char (CHR ''0'') :: nat)"
        by simp
      then show "n = 0"
        using True by simp
    qed
    then show ?thesis
      using True by (subst str_nat.simps) (simp add: digit_char_of)
  next
    case False
    then obtain c t where "str_nat (n div 10) = c # t" "digit c"
      "c = CHR ''0'' \<longrightarrow> n div 10 = 0 \<and> t = []"
      using 1 by blast
    moreover have "n div 10 \<noteq> 0"
      using False by simp
    ultimately show ?thesis
      using False by (subst str_nat.simps) simp
  qed
qed

lemma span_digits_append:
  assumes "rest = [] \<or> \<not> digit (hd rest)"
  shows "takeWhile digit (l @ rest) = takeWhile digit l"
    and "dropWhile digit (l @ rest) = dropWhile digit l @ rest"
proof -
  have "takeWhile digit rest = []" "dropWhile digit rest = rest"
    using assms by (cases rest; auto)+
  then show "takeWhile digit (l @ rest) = takeWhile digit l"
    and "dropWhile digit (l @ rest) = dropWhile digit l @ rest"
    by (induction l) simp_all
qed

lemma span_all_digits:
  "\<forall>c \<in> set ds. digit c \<Longrightarrow> takeWhile digit ds = ds \<and> dropWhile digit ds = []"
  by (induction ds) simp_all

lemma delimited_no_digit: "delimited rest \<Longrightarrow> rest = [] \<or> \<not> digit (hd rest)"
  by (auto simp: delimited_def digit_def)

lemma scan_int_part_append:
  assumes "delimited rest"
  shows "scan_int_part (l @ rest) = map_option (\<lambda>(ds, r). (ds, r @ rest)) (scan_int_part l)"
proof (cases l)
  case Nil
  then show ?thesis
    using assms by (cases rest) (auto simp: scan_int_part_def delimited_def digit_def)
next
  case (Cons c t)
  then show ?thesis
    by (simp add: scan_int_part_def span_digits_append [OF delimited_no_digit [OF assms]])
qed

lemma scan_frac_append:
  assumes "delimited rest"
  shows "scan_frac (l @ rest) = (fst (scan_frac l), snd (scan_frac l) @ rest)"
proof (cases l)
  case Nil
  then show ?thesis
    using assms by (cases rest; cases "tl rest") (auto simp: scan_frac_def delimited_def)
next
  case l: (Cons c t)
  show ?thesis
  proof (cases t)
    case Nil
    then show ?thesis
      using assms l by (cases rest) (auto simp: scan_frac_def delimited_def digit_def)
  next
    case (Cons d u)
    then show ?thesis
      using l
      by (simp add: scan_frac_def span_digits_append [OF delimited_no_digit [OF assms]])
  qed
qed

lemma scan_exp_append:
  assumes "delimited rest"
  shows "scan_exp (l @ rest) = (fst (scan_exp l), snd (scan_exp l) @ rest)"
proof (cases l)
  case Nil
  then show ?thesis
    using assms by (cases rest) (auto simp: scan_exp_def delimited_def)
next
  case l: (Cons c t)
  show ?thesis
  proof (cases t)
    case Nil
    then show ?thesis
      using assms l by (cases rest) (auto simp: scan_exp_def delimited_def digit_def)
  next
    case t: (Cons d u)
    show ?thesis
    proof (cases u)
      case Nil
      then show ?thesis
        using assms l t
        by (cases rest)
           (auto simp: scan_exp_def delimited_def digit_def
              span_digits_append [OF delimited_no_digit [OF assms]])
    next
      case (Cons f g)
      then show ?thesis
        using l t
        by (simp add: scan_exp_def span_digits_append [OF delimited_no_digit [OF assms]])
    qed
  qed
qed

lemma scan_number_append:
  assumes "delimited rest"
  shows "scan_number (l @ rest) = map_option (\<lambda>(v, r). (v, r @ rest)) (scan_number l)"
proof -
  have neg: "(l @ rest \<noteq> [] \<and> hd (l @ rest) = CHR ''-'') = (l \<noteq> [] \<and> hd l = CHR ''-'')"
    using assms by (cases l) (auto simp: delimited_def)
  have tail: "l \<noteq> [] \<Longrightarrow> tl (l @ rest) = tl l @ rest"
    by (cases l) simp_all
  show ?thesis
    unfolding scan_number_def neg Let_def
    by (auto simp: tail scan_int_part_append [OF assms] scan_frac_append [OF assms]
          scan_exp_append [OF assms] case_prod_unfold split: option.splits)
qed

lemma scan_number_digits:
  assumes "ds = c # t" "digit c" "c = CHR ''0'' \<longrightarrow> t = []" "\<forall>x \<in> set ds. digit x"
  shows "scan_number ds = Some (PInt (int (nat_of_digits ds)), [])"
    and "scan_number (CHR ''-'' # ds) = Some (PInt (- int (nat_of_digits ds)), [])"
proof -
  have all: "takeWhile digit ds = ds" "dropWhile digit ds = []"
    using span_all_digits [OF assms(4)] by simp_all
  have part: "scan_int_part ds = Some (ds, [])"
    using assms(1-3) all by (auto simp: scan_int_part_def)
  have "c \<noteq> CHR ''-''"
    using assms(2) by (auto simp: digit_def)
  then have neg: "(ds \<noteq> [] \<and> hd ds = CHR ''-'') = False"
    using assms(1) by simp
  show "scan_number ds = Some (PInt (int (nat_of_digits ds)), [])"
    unfolding scan_number_def neg Let_def
    by (simp add: part scan_frac_def scan_exp_def)
  show "scan_number (CHR ''-'' # ds) = Some (PInt (- int (nat_of_digits ds)), [])"
    unfolding scan_number_def Let_def
    by (simp add: part scan_frac_def scan_exp_def)
qed

lemma scan_number_str_int: "scan_number (str_int i) = Some (PInt i, [])"
proof -
  have *: "scan_number (str_nat n) = Some (PInt (int n), [])"
    "scan_number (CHR ''-'' # str_nat n) = Some (PInt (- int n), [])" for n
  proof -
    obtain c t where ct: "str_nat n = c # t" "digit c" "c = CHR ''0'' \<longrightarrow> n = 0 \<and> t = []"
      using str_nat_Cons by blast
    then have zero: "c = CHR ''0'' \<longrightarrow> t = []"
      by simp
    show "scan_number (str_nat n) = Some (PInt (int n), [])"
      "scan_number (CHR ''-'' # str_nat n) = Some (PInt (- int n), [])"
      using scan_number_digits [OF ct(1,2) zero str_nat_digits]
      by (simp_all add: nat_of_digits_str_nat)
  qed
  show ?thesis
    using * [of "nat i"] * [of "nat (- i)"] by (simp add: str_int_def)
qed

lemma scan_number_start:
  assumes "scan_number s = Some (v, r)"
  shows "\<exists>c t. s = c # t \<and> (c = CHR ''-'' \<or> digit c)"
proof (cases s)
  case Nil
  then show ?thesis
    using assms by (simp add: scan_number_def scan_int_part_def)
next
  case (Cons c t)
  show ?thesis
  proof (cases "c = CHR ''-''")
    case True
    then show ?thesis using Cons by simp
  next
    case False
    then have "scan_int_part s \<noteq> None"
      using assms Cons by (auto simp: scan_number_def Let_def split: option.splits)
    then have "digit c"
      using Cons by (auto simp: scan_int_part_def digit_def split: if_splits)
    then show ?thesis using Cons by simp
  qed
qed

subsection \<open>Values\<close>

lemma skip_ws_Cons: "\<not> json_ws c \<Longrightarrow> skip_ws (c # s) = c # s"
  by (simp add: skip_ws_def)

lemma skip_ws_indent: "\<not> json_ws c \<Longrightarrow> skip_ws (newline_indent k @ c # s) = c # s"
proof -
  assume c: "\<not> json_ws c"
  have "\<forall>x \<in> set (newline_indent k). json_ws x"
    by (auto simp: newline_indent_def json_ws_def)
  then show ?thesis
    using c by (simp add: skip_ws_def dropWhile_append2)
qed

lemma skip_ws_space: "\<not> json_ws c \<Longrightarrow> skip_ws (CHR '' '' # c # s) = c # s"
  by (simp add: skip_ws_def json_ws_def)

lemma delimited_indent: "delimited (newline_indent k @ s)" "delimited (CHR '','' # s)"
  by (simp_all add: delimited_def newline_indent_def)

lemma number_start:
  assumes "c = CHR ''-'' \<or> digit c"
  shows "\<not> json_ws c" "c \<noteq> CHR '']''" "c \<noteq> CHR 0x22" "c \<noteq> CHR ''{''" "c \<noteq> CHR ''[''"
    "c \<noteq> CHR ''n''" "c \<noteq> CHR ''t''" "c \<noteq> CHR ''f''"
  using assms by (auto simp: digit_def json_ws_def)

lemma scan_once_number:
  assumes "c = CHR ''-'' \<or> digit c"
  shows "scan_once (Suc m) (c # t) = scan_number (c # t)"
  using number_start [OF assms] by simp

lemma iterencode_start:
  assumes "json_value fr v"
  shows "\<exists>c t. iterencode fr level v = c # t \<and> \<not> json_ws c \<and> c \<noteq> CHR '']''"
proof (cases v)
  case PNone
  then show ?thesis by (simp add: json_ws_def)
next
  case (PBool b)
  then show ?thesis by (simp add: json_ws_def)
next
  case (PInt i)
  obtain c t where "str_int i = c # t" "c = CHR ''-'' \<or> digit c"
    using scan_number_start [OF scan_number_str_int] by blast
  then show ?thesis
    using PInt number_start(1,2) by simp
next
  case (PFloat x)
  then have "scan_number (fr x) = Some (PFloat x, [])"
    using assms by simp
  then obtain c t where "fr x = c # t" "c = CHR ''-'' \<or> digit c"
    using scan_number_start by blast
  then show ?thesis
    using PFloat number_start(1,2) by simp
next
  case (PStr s)
  then show ?thesis by (simp add: encode_basestring_ascii_def json_ws_def)
next
  case (PList vs)
  then show ?thesis by (simp add: json_ws_def)
next
  case (PDict kvs)
  then show ?thesis by (simp add: json_ws_def)
qed

lemma iterencode_list_start:
  assumes "vs \<noteq> []" "json_values fr vs"
  shows "\<exists>c t. iterencode_list fr level vs = c # t \<and> \<not> json_ws c \<and> c \<noteq> CHR '']''"
proof -
  obtain v vs' where vs: "vs = v # vs'"
    using assms(1) by (cases vs) auto
  then have "json_value fr v"
    using assms(2) by simp
  then obtain c t where "iterencode fr level v = c # t" "\<not> json_ws c" "c \<noteq> CHR '']''"
    using iterencode_start by blast
  then show ?thesis
    using vs by simp
qed

lemma iterencode_dict_start:
  assumes "kvs \<noteq> []"
  shows "\<exists>t. iterencode_dict fr level kvs = CHR 0x22 # t"
  using assms by (cases kvs) (simp_all add: encode_basestring_ascii_def)

lemma dict_update_fresh: "k \<notin> fst ` set d \<Longrightarrow> dict_update k v d = d @ [(k, v)]"
  by (induction d) auto

lemma dict_of_pairs_fold:
  "distinct (map fst (d @ pairs)) \<Longrightarrow>
     foldl (\<lambda>d kv. dict_update (fst kv) (snd kv) d) d pairs = d @ pairs"
proof (induction pairs arbitrary: d)
  case Nil
  show ?case by simp
next
  case (Cons kv pairs)
  have "fst kv \<notin> fst ` set d"
    using Cons.prems by auto
  then have "dict_update (fst kv) (snd kv) d = d @ [kv]"
    by (simp add: dict_update_fresh)
  moreover have "distinct (map fst ((d @ [kv]) @ pairs))"
    using Cons.prems by simp
  ultimately show ?case
    using Cons.IH [of "d @ [kv]"] by simp
qed

lemma dict_of_pairs_distinct: "distinct (map fst pairs) \<Longrightarrow> dict_of_pairs pairs = pairs"
  using dict_of_pairs_fold [of "[]" pairs] by (simp add: dict_of_pairs_def)

lemma scan_round_trip:
  "json_value fr v \<Longrightarrow> scan_depth v \<le> n \<Longrightarrow> delimited rest \<Longrightarrow>
     scan_once n (iterencode fr level v @ rest) = Some (v, rest)"
  "vs \<noteq> [] \<Longrightarrow> json_values fr vs \<Longrightarrow> scan_depth_list vs \<le> n \<Longrightarrow>
     parse_array n (iterencode_list fr level vs @ newline_indent k @ CHR '']'' # rest)
       = Some (vs, rest)"
  "kvs \<noteq> [] \<Longrightarrow> json_items fr kvs \<Longrightarrow> scan_depth_dict kvs \<le> n \<Longrightarrow>
     parse_object n (iterencode_dict fr level kvs @ newline_indent k @ CHR ''}'' # rest)
       = Some (kvs, rest)"
proof (induction fr level v and fr level vs and fr level kvs
    arbitrary: n rest and n rest k and n rest k
    rule: iterencode_iterencode_list_iterencode_dict.induct)
  case (1 fr level)
  then obtain m where "n = Suc m"
    by (cases n) auto
  then show ?case by simp
next
  case (2 fr level b)
  then obtain m where "n = Suc m"
    by (cases n) auto
  then show ?case by simp
next
  case (3 fr level i)
  then obtain m where n: "n = Suc m"
    by (cases n) auto
  obtain c t where ct: "str_int i = c # t" "c = CHR ''-'' \<or> digit c"
    using scan_number_start [OF scan_number_str_int] by blast
  have "scan_once n (str_int i @ rest) = scan_number (str_int i @ rest)"
    unfolding n ct(1) using scan_once_number [OF ct(2)] by simp
  also have "\<dots> = Some (PInt i, rest)"
    by (simp add: scan_number_append [OF 3(3)] scan_number_str_int)
  finally show ?case by simp
next
  case (4 fr level x)
  then obtain m where n: "n = Suc m"
    by (cases n) auto
  have lit: "scan_number (fr x) = Some (PFloat x, [])"
    using 4(1) by simp
  obtain c t where ct: "fr x = c # t" "c = CHR ''-'' \<or> digit c"
    using scan_number_start [OF lit] by blast
  have "scan_once n (fr x @ rest) = scan_number (fr x @ rest)"
    unfolding n ct(1) using scan_once_number [OF ct(2)] by simp
  also have "\<dots> = Some (PFloat x, rest)"
    by (simp add: scan_number_append [OF 4(3)] lit)
  finally show ?case by simp
next
  case (5 fr level s)
  then obtain m where n: "n = Suc m"
    by (cases n) auto
  have "utf8 s"
    using 5(1) by simp
  then show ?case
    unfolding n by (simp add: encode_basestring_ascii_def scanstring_escape)
next
  case (6 fr level vs)
  from 6(3) obtain m where n: "n = Suc m" and m: "scan_depth_list vs \<le> m"
    by (cases n) auto
  show ?case
  proof (cases "vs = []")
    case True
    then show ?thesis
      unfolding n by (simp add: skip_ws_Cons json_ws_def)
  next
    case False
    have ok: "json_values fr vs"
      using 6(2) by simp
    obtain c t where ct: "iterencode_list fr (Suc level) vs = c # t" "\<not> json_ws c" "c \<noteq> CHR '']''"
      using iterencode_list_start [OF False ok] by blast
    have items: "parse_array m (iterencode_list fr (Suc level) vs @ newline_indent level @ CHR '']'' # rest)
        = Some (vs, rest)"
      using 6(1) [OF False False ok m] .
    have "skip_ws (newline_indent (Suc level) @ iterencode_list fr (Suc level) vs
            @ newline_indent level @ CHR '']'' # rest)
          = c # t @ newline_indent level @ CHR '']'' # rest"
      unfolding ct(1) using skip_ws_indent [OF ct(2)] by simp
    then show ?thesis
      unfolding n using False items ct by simp
  qed
next
  case (7 fr level kvs)
  from 7(3) obtain m where n: "n = Suc m" and m: "scan_depth_dict kvs \<le> m"
    by (cases n) auto
  show ?case
  proof (cases "kvs = []")
    case True
    then show ?thesis
      unfolding n by (simp add: skip_ws_Cons json_ws_def)
  next
    case False
    have ok: "json_items fr kvs" and keys: "distinct (map fst kvs)"
      using 7(2) by simp_all
    obtain t where ct: "iterencode_dict fr (Suc level) kvs = CHR 0x22 # t"
      using iterencode_dict_start [OF False] by blast
    have items: "parse_object m (iterencode_dict fr (Suc level) kvs @ newline_indent level @ CHR ''}'' # rest)
        = Some (kvs, rest)"
      using 7(1) [OF False False ok m] .
    have "skip_ws (newline_indent (Suc level) @ iterencode_dict fr (Suc level) kvs
            @ newline_indent level @ CHR ''}'' # rest)
          = CHR 0x22 # t @ newline_indent level @ CHR ''}'' # rest"
      unfolding ct using skip_ws_indent [of "CHR 0x22"] by (simp add: json_ws_def)
    then show ?thesis
      unfolding n using False items ct by (simp add: dict_of_pairs_distinct [OF keys])
  qed
next
  case (8 fr level)
  then show ?case by simp
next
  case (9 fr level v vs)
  from 9(5) obtain m where n: "n = Suc m" and mv: "scan_depth v \<le> m"
    and mvs: "scan_depth_list vs \<le> m"
    by (cases n) auto
  have okv: "json_value fr v" and okvs: "json_values fr vs"
    using 9(4) by simp_all
  show ?case
  proof (cases "vs = []")
    case True
    have "scan_once m (iterencode fr level v @ newline_indent k @ CHR '']'' # rest)
        = Some (v, newline_indent k @ CHR '']'' # rest)"
      using 9(1) [OF okv mv delimited_indent(1)] .
    moreover have "skip_ws (newline_indent k @ CHR '']'' # rest) = CHR '']'' # rest"
      using skip_ws_indent [of "CHR '']''"] by (simp add: json_ws_def)
    ultimately show ?thesis
      unfolding n using True by simp
  next
    case False
    obtain c t where ct: "iterencode_list fr level vs = c # t" "\<not> json_ws c"
      using iterencode_list_start [OF False okvs] by blast
    let ?tail = "iterencode_list fr level vs @ newline_indent k @ CHR '']'' # rest"
    have "scan_once m (iterencode fr level v @ CHR '','' # newline_indent level @ ?tail)
        = Some (v, CHR '','' # newline_indent level @ ?tail)"
      using 9(1) [OF okv mv delimited_indent(2)] .
    moreover have "skip_ws (CHR '','' # newline_indent level @ ?tail)
        = CHR '','' # newline_indent level @ ?tail"
      by (simp add: skip_ws_Cons json_ws_def)
    moreover have "skip_ws (newline_indent level @ ?tail) = ?tail"
      unfolding ct(1) using skip_ws_indent [OF ct(2)] by simp
    moreover have "parse_array m ?tail = Some (vs, rest)"
      using 9(2) [OF False False okvs mvs] .
    ultimately show ?thesis
      unfolding n using False by simp
  qed
next
  case (10 fr level)
  then show ?case by simp
next
  case (11 fr level kv kvs)
  from 11(5) obtain m where n: "n = Suc m" and mv: "scan_depth (snd kv) \<le> m"
    and mkvs: "scan_depth_dict kvs \<le> m"
    by (cases n) auto
  have key: "utf8 (fst kv)" and okv: "json_value fr (snd kv)" and okkvs: "json_items fr kvs"
    using 11(4) by simp_all
  obtain c t where ct: "iterencode fr level (snd kv) = c # t" "\<not> json_ws c"
    using iterencode_start [OF okv] by blast
  have colon: "skip_ws (CHR '':'' # s) = CHR '':'' # s" for s
    by (simp add: skip_ws_Cons json_ws_def)
  show ?case
  proof (cases "kvs = []")
    case True
    let ?after = "newline_indent k @ CHR ''}'' # rest"
    have "scanstring (escape (fst kv) @ CHR 0x22 # CHR '':'' # CHR '' '' # iterencode fr level (snd kv) @ ?after)
        = Some (fst kv, CHR '':'' # CHR '' '' # iterencode fr level (snd kv) @ ?after)"
      using scanstring_escape [OF key] .
    moreover have "skip_ws (CHR '' '' # iterencode fr level (snd kv) @ ?after)
        = iterencode fr level (snd kv) @ ?after"
      unfolding ct(1) using skip_ws_space [OF ct(2)] by simp
    moreover have "scan_once m (iterencode fr level (snd kv) @ ?after) = Some (snd kv, ?after)"
      using 11(1) [OF okv mv delimited_indent(1)] .
    moreover have "skip_ws ?after = CHR ''}'' # rest"
      using skip_ws_indent [of "CHR ''}''"] by (simp add: json_ws_def)
    ultimately show ?thesis
      unfolding n using True by (simp add: encode_basestring_ascii_def colon)
  next
    case False
    obtain t' where ct': "iterencode_dict fr level kvs = CHR 0x22 # t'"
      using iterencode_dict_start [OF False] by blast
    let ?tail = "iterencode_dict fr level kvs @ newline_indent k @ CHR ''}'' # rest"
    let ?after = "CHR '','' # newline_indent level @ ?tail"
    have "scanstring (escape (fst kv) @ CHR 0x22 # CHR '':'' # CHR '' '' # iterencode fr level (snd kv) @ ?after)
        = Some (fst kv, CHR '':'' # CHR '' '' # iterencode fr level (snd kv) @ ?after)"
      using scanstring_escape [OF key] .
    moreover have "skip_ws (CHR '' '' # iterencode fr level (snd kv) @ ?after)
        = iterencode fr level (snd kv) @ ?after"
      unfolding ct(1) using skip_ws_space [OF ct(2)] by simp
    moreover have "scan_once m (iterencode fr level (snd kv) @ ?after) = Some (snd kv, ?after)"
      using 11(1) [OF okv mv delimited_indent(2)] .
    moreover have "skip_ws ?after = ?after"
      by (simp add: skip_ws_Cons json_ws_def)
    moreover have "skip_ws (newline_indent level @ ?tail) = ?tail"
      unfolding ct' using skip_ws_indent [of "CHR 0x22"] by (simp add: json_ws_def)
    moreover have "parse_object m ?tail = Some (kvs, rest)"
      using 11(2) [OF False False okkvs mkvs] .
    ultimately show ?thesis
      unfolding n using False by (simp add: encode_basestring_ascii_def colon)
  qed
qed

lemma length_newline_indent [simp]: "length (newline_indent k) = Suc (2 * k)"
  by (simp add: newline_indent_def)

lemma scan_depth_le_length:
  "json_value fr v \<Longrightarrow> scan_depth v \<le> length (iterencode fr level v)"
  "json_values fr vs \<Longrightarrow> scan_depth_list vs \<le> Suc (length (iterencode_list fr level vs))"
  "json_items fr kvs \<Longrightarrow> scan_depth_dict kvs \<le> Suc (length (iterencode_dict fr level kvs))"
proof (induction fr level v and fr level vs and fr level kvs
    rule: iterencode_iterencode_list_iterencode_dict.induct)
  case (3 fr level i)
  obtain c t where "iterencode fr level (PInt i) = c # t"
    using iterencode_start [OF 3] by blast
  then show ?case by simp
next
  case (4 fr level x)
  obtain c t where "iterencode fr level (PFloat x) = c # t"
    using iterencode_start [OF 4] by blast
  then show ?case by simp
next
  case (5 fr level s)
  then show ?case by (simp add: encode_basestring_ascii_def)
next
  case (6 fr level vs)
  then show ?case by (cases "vs = []") auto
next
  case (7 fr level kvs)
  then show ?case by (cases "kvs = []") auto
next
  case (9 fr level v vs)
  then show ?case by (cases "vs = []") auto
next
  case (11 fr level kv kvs)
  then show ?case by (cases "kvs = []") auto
qed simp_all

lemma json_loads_json_dumps:
  assumes "json_value fr v"
  shows "json_loads (json_dumps fr v) = Inr v"
proof -
  let ?s = "iterencode fr 0 v"
  obtain c t where ct: "?s = c # t" "\<not> json_ws c"
    using iterencode_start [OF assms] by blast
  have start: "skip_ws ?s = ?s"
    unfolding ct(1) using ct(2) by (rule skip_ws_Cons)
  have depth: "scan_depth v \<le> 2 * length ?s + 1"
    using scan_depth_le_length(1) [OF assms, of 0] by simp
  have "delimited []"
    by (simp add: delimited_def)
  from scan_round_trip(1) [OF assms depth this, of 0]
  have scanned: "scan_once (2 * length ?s + 1) ?s = Some (v, [])"
    unfolding append_Nil2 .
  have "skip_ws [] = []"
    by (simp add: skip_ws_def)
  then show ?thesis
    unfolding json_loads_def json_dumps_def start scanned by simp
qed

lemma route_items_without_polyline:
  "route_items (r\<lparr>polyline := None\<rparr>) = filter (\<lambda>kv. fst kv \<noteq> ''polyline'') (route_items r)"
  by (simp add: route_items_def split: option.splits)

lemma json_items_filter: "json_items fr kvs \<Longrightarrow> json_items fr (filter P kvs)"
  by (induction kvs) simp_all

lemma json_value_without_polyline:
  assumes "json_value fr (PDict (route_items r))"
  shows "json_value fr (PDict (route_items (r\<lparr>polyline := None\<rparr>)))"
  using assms unfolding route_items_without_polyline
  by (simp add: json_items_filter distinct_map_filter)

lemma json_values_map:
  "\<forall>r \<in> set rs. json_value fr (f r) \<Longrightarrow> json_values fr (map f rs)"
  by (induction rs) simp_all

text \<open>
  C9. \<open>json.load\<close> of the file written by \<open>save_routes_data\<close>, whose text is the text
  \<open>json.dump\<close> writes with \<open>indent=2\<close>, returns the trip and the dictionaries of the given
  routes in their order, each without the key \<open>polyline\<close> and with every other key and
  value as it was. The routes and the names of the trip are values the \<open>json\<close> module
  reads back: their strings are well-formed text, the keys of a fares mapping differ, and
  \<open>float.__repr__\<close> prints each float as a number that reads as that float.
\<close>

theorem save_routes_data_round_trip:
  assumes "\<forall>r \<in> set rs. json_value (float_repr e) (PDict (route_items r))"
    and "utf8 start_name" and "utf8 end_name" and "utf8 mode" and "utf8 (now_isoformat e)"
  shows "json_load e
           (snd (save_routes_data e rs start_name end_name origin dest mode filename w))
           (fst (save_routes_data e rs start_name end_name origin dest mode filename w))
         = Inr (PDict
             [(''trip'', PDict [(''start'', PStr start_name), (''end'', PStr end_name),
                               (''mode'', PStr mode),
                               (''generated_at'', PStr (now_isoformat e))]),
              (''routes'',
               PList (map (\<lambda>r. PDict (filter (\<lambda>kv. fst kv \<noteq> ''polyline'') (route_items r)))
                        rs))])"
proof -
  define doc where
    "doc = \<lparr>trip = \<lparr>trip_start = start_name, trip_end = end_name, trip_mode = mode,
                     generated_at = now_isoformat e\<rparr>,
            routes = map (\<lambda>r. r\<lparr>polyline := None\<rparr>) rs\<rparr>"
  have stored: "files (snd (save_routes_data e rs start_name end_name origin dest mode filename w))
                  (fst (save_routes_data e rs start_name end_name origin dest mode filename w))
                = Some (JsonFile doc)"
    by (simp add: save_routes_data_def doc_def Let_def)
  have "\<forall>r \<in> set rs. json_value (float_repr e) (PDict (route_items (r\<lparr>polyline := None\<rparr>)))"
    using assms(1) json_value_without_polyline by blast
  then have "json_values (float_repr e) (map (\<lambda>r. PDict (route_items (r\<lparr>polyline := None\<rparr>))) rs)"
    by (rule json_values_map)
  then have ok: "json_value (float_repr e) (trip_record_dict doc)"
    using assms(2-5) by (simp add: trip_record_dict_def doc_def o_def)
  have "json_load e (snd (save_routes_data e rs start_name end_name origin dest mode filename w))
           (fst (save_routes_data e rs start_name end_name origin dest mode filename w))
        = json_loads (json_dumps (float_repr e) (trip_record_dict doc))"
    unfolding json_load_def stored by (simp add: json_text_def)
  also have "\<dots> = Inr (trip_record_dict doc)"
    using ok by (rule json_loads_json_dumps)
  finally show ?thesis
    by (simp add: trip_record_dict_def doc_def o_def route_items_without_polyline)
qed

theorem save_routes_data_round_trip_witness:
  "json_load example_env
     (snd (save_routes_data example_env
        [(example_route 150000 10800 ''Default'')
           \<lparr>route_number := Some 1,
            fare_info := Some \<lparr>fares = [(''personal_car'', \<lparr>fare = 1050, currency = ''INR''\<rparr>)],
                              distance_km = 150\<rparr>\<rparr>]
        ''Mumbai'' ''Pune'' (19, 73) (18, 74) ''DRIVE'' ''route_data.json'' empty_world))
     ''route_data.json''
   = Inr (PDict
       [(''trip'', PDict [(''start'', PStr ''Mumbai''), (''end'', PStr ''Pune''),
                         (''mode'', PStr ''DRIVE''),
                         (''generated_at'', PStr ''2024-01-01T00:00:00'')]),
        (''routes'',
         PList [PDict [(''summary'', PStr ''NH48''), (''distance'', PInt 150000),
                       (''duration'', PInt 10800), (''distance_text'', PStr ''150 km''),
                       (''duration_text'', PStr ''3 hours''), (''strategy'', PStr ''Default''),
                       (''route_number'', PInt 1),
                       (''fare_info'',
                        PDict [(''fares'',
                                PDict [(''personal_car'',
                                        PDict [(''fare'', PFloat 1050),
                                               (''currency'', PStr ''INR'')])]),
                               (''distance_km'', PFloat 150)])]])])"
proof -
  let ?r = "(example_route 150000 10800 ''Default'')
           \<lparr>route_number := Some 1,
            fare_info := Some \<lparr>fares = [(''personal_car'', \<lparr>fare = 1050, currency = ''INR''\<rparr>)],
                              distance_km = 150\<rparr>\<rparr>"
  have whole: "binary64 1050 = 1050" "binary64 150 = 150"
    by code_simp+
  have printed: "float_repr example_env 1050 = ''1050.0''" "float_repr example_env 150 = ''150.0''"
    unfolding example_env_def by (simp_all add: repr_whole_def str_int_def) code_simp+
  have literal: "scan_number ''1050.0'' = Some (PFloat 1050, [])"
    "scan_number ''150.0'' = Some (PFloat 150, [])"
    by (simp_all add: scan_number_def scan_int_part_def scan_frac_def scan_exp_def digit_def
          float_of_decimal_def nat_of_digits_def whole)
  have "json_value (float_repr example_env) (PDict (route_items ?r))"
    by (simp add: route_items_def example_route_def fare_info_dict_def fare_entry_dict_def
          printed literal Let_def)
  then have routes_ok: "\<forall>r \<in> set [?r]. json_value (float_repr example_env) (PDict (route_items r))"
    by simp
  have names: "utf8 ''Mumbai''" "utf8 ''Pune''" "utf8 ''DRIVE''" "utf8 (now_isoformat example_env)"
    by (simp_all add: example_env_def Let_def)
  have stamp: "now_isoformat example_env = ''2024-01-01T00:00:00''"
    by (simp add: example_env_def)
  have name: "fst (save_routes_data example_env [?r] ''Mumbai'' ''Pune'' (19, 73) (18, 74)
                ''DRIVE'' ''route_data.json'' empty_world) = ''route_data.json''"
    by (simp add: save_routes_data_def)
  have items: "filter (\<lambda>kv. fst kv \<noteq> ''polyline'') (route_items ?r)
      = [(''summary'', PStr ''NH48''), (''distance'', PInt 150000),
         (''duration'', PInt 10800), (''distance_text'', PStr ''150 km''),
         (''duration_text'', PStr ''3 hours''), (''strategy'', PStr ''Default''),
         (''route_number'', PInt 1),
         (''fare_info'',
          PDict [(''fares'',
                  PDict [(''personal_car'',
                          PDict [(''fare'', PFloat 1050), (''currency'', PStr ''INR'')])]),
                 (''distance_km'', PFloat 150)])]"
    by (simp add: route_items_def example_route_def fare_info_dict_def fare_entry_dict_def)
  show ?thesis
    using save_routes_data_round_trip
      [OF routes_ok names, of "(19, 73)" "(18, 74)" "''route_data.json''" empty_world]
    unfolding name stamp by (simp only: items list.map)
qed

end
